theory Spec2Isabelle
  imports Complex_Main "HOL-Library.Word" "HOL-Library.Sublist"
begin

section \<open>JavaScript numbers\<close>

text \<open>
  A JavaScript number is an IEEE 754 double: NaN, one of the two infinities, negative
  zero, or a finite value other than negative zero, given by the real number it denotes
  (\<open>Fin 0\<close> is positive zero). Every arithmetic operation computes the exact real result
  and rounds it to the nearest double, ties to even; a result beyond the largest double
  becomes an infinity, and a result that vanishes keeps its sign.
\<close>

datatype jsnum = NaN | PInf | NInf | NZero | Fin real

text \<open>A value read by the program is a number or \<open>undefined\<close>.\<close>

datatype jsval = Undefined | Number jsnum

fun ToNumber :: "jsval \<Rightarrow> jsnum" where
  "ToNumber Undefined = NaN"
| "ToNumber (Number n) = n"

fun js_isNaN :: "jsnum \<Rightarrow> bool" where
  "js_isNaN NaN = True"
| "js_isNaN _ = False"

text \<open>The global \<open>isNaN\<close> converts its argument to a number first.\<close>

definition isNaN :: "jsval \<Rightarrow> bool" where
  "isNaN v = js_isNaN (ToNumber v)"

fun js_finite :: "jsnum \<Rightarrow> bool" where
  "js_finite NZero = True"
| "js_finite (Fin a) = True"
| "js_finite _ = False"

fun js_zero :: "jsnum \<Rightarrow> bool" where
  "js_zero NZero = True"
| "js_zero (Fin a) = (a = 0)"
| "js_zero _ = False"

text \<open>The sign bit of a value that is not NaN: \<open>True\<close> for negative.\<close>

fun js_negative :: "jsnum \<Rightarrow> bool" where
  "js_negative NInf = True"
| "js_negative NZero = True"
| "js_negative (Fin a) = (a < 0)"
| "js_negative _ = False"

text \<open>The real number a finite value denotes.\<close>

fun value_of :: "jsnum \<Rightarrow> real" where
  "value_of (Fin a) = a"
| "value_of _ = 0"

definition signed_inf :: "bool \<Rightarrow> jsnum" where
  "signed_inf neg = (if neg then NInf else PInf)"

definition signed_zero :: "bool \<Rightarrow> jsnum" where
  "signed_zero neg = (if neg then NZero else Fin 0)"

subsection \<open>Rounding to a double\<close>

definition round_half_even :: "real \<Rightarrow> int" where
  "round_half_even q =
     (let f = \<lfloor>q\<rfloor>; d = q - of_int f
      in if d < 1 / 2 then f else if 1 / 2 < d then f + 1 else if even f then f else f + 1)"

text \<open>
  A double has 53 significant bits and exponents from -1022 to 1023; below the normal
  range the spacing stays at \<open>2\<^sup>-\<^sup>1\<^sup>0\<^sup>7\<^sup>4\<close>. \<open>double_mag m\<close> is the multiple of the spacing at
  \<open>m > 0\<close> that is nearest to \<open>m\<close>.
\<close>

definition double_mag :: "real \<Rightarrow> real" where
  "double_mag m =
     (let e = max \<lfloor>log 2 m\<rfloor> (- 1022);
          ulp = 2 powi (e - 52)
      in of_int (round_half_even (m / ulp)) * ulp)"

text \<open>The double of a sign and a magnitude \<open>m \<ge> 0\<close>.\<close>

definition double_of :: "bool \<Rightarrow> real \<Rightarrow> jsnum" where
  "double_of neg m =
     (if m = 0 then signed_zero neg
      else if 2 ^ 1024 \<le> double_mag m then signed_inf neg
      else if double_mag m = 0 then signed_zero neg
      else Fin (if neg then - double_mag m else double_mag m))"

definition double :: "real \<Rightarrow> jsnum" where
  "double r = double_of (r < 0) \<bar>r\<bar>"

subsection \<open>Arithmetic\<close>

fun js_neg :: "jsnum \<Rightarrow> jsnum" where
  "js_neg NaN = NaN"
| "js_neg PInf = NInf"
| "js_neg NInf = PInf"
| "js_neg NZero = Fin 0"
| "js_neg (Fin a) = (if a = 0 then NZero else Fin (- a))"

text \<open>
  A sum that is exactly zero is positive zero, unless both summands are negative zero.
\<close>

definition js_add :: "jsnum \<Rightarrow> jsnum \<Rightarrow> jsnum" where
  "js_add a b =
     (if js_isNaN a \<or> js_isNaN b then NaN
      else if \<not> js_finite a then (if \<not> js_finite b \<and> a \<noteq> b then NaN else a)
      else if \<not> js_finite b then b
      else if value_of a + value_of b = 0
           then (if a = NZero \<and> b = NZero then NZero else Fin 0)
      else double (value_of a + value_of b))"

definition js_sub :: "jsnum \<Rightarrow> jsnum \<Rightarrow> jsnum" where
  "js_sub a b = js_add a (js_neg b)"

text \<open>The sign of a product or a quotient is the exclusive or of the signs.\<close>

definition js_mul :: "jsnum \<Rightarrow> jsnum \<Rightarrow> jsnum" where
  "js_mul a b =
     (if js_isNaN a \<or> js_isNaN b then NaN
      else if \<not> js_finite a \<or> \<not> js_finite b
           then (if js_zero a \<or> js_zero b then NaN
                 else signed_inf (js_negative a \<noteq> js_negative b))
      else double_of (js_negative a \<noteq> js_negative b) \<bar>value_of a * value_of b\<bar>)"

definition js_div :: "jsnum \<Rightarrow> jsnum \<Rightarrow> jsnum" where
  "js_div a b =
     (if js_isNaN a \<or> js_isNaN b then NaN
      else if \<not> js_finite a
           then (if \<not> js_finite b then NaN
                 else signed_inf (js_negative a \<noteq> js_negative b))
      else if \<not> js_finite b then signed_zero (js_negative a \<noteq> js_negative b)
      else if js_zero b
           then (if js_zero a then NaN
                 else signed_inf (js_negative a \<noteq> js_negative b))
      else double_of (js_negative a \<noteq> js_negative b) \<bar>value_of a / value_of b\<bar>)"

text \<open>The order on numbers; every comparison with NaN is false, and the zeros are equal.\<close>

definition js_less :: "jsnum \<Rightarrow> jsnum \<Rightarrow> bool" where
  "js_less a b =
     (if js_isNaN a \<or> js_isNaN b then False
      else if a = PInf then False
      else if b = PInf then True
      else if b = NInf then False
      else if a = NInf then True
      else value_of a < value_of b)"

subsection \<open>The \<open>Math\<close> object\<close>

text \<open>
  \<open>Math.sqrt\<close> and \<open>Math.atan\<close> are fixed by the language at NaN, at the zeros and (for the
  square root) at the infinities and the negative numbers; elsewhere each engine has its
  own approximation, which is a parameter here.
\<close>

record math_library =
  approx_sqrt :: "real \<Rightarrow> jsnum"
  approx_atan :: "jsnum \<Rightarrow> jsnum"

fun Math_sqrt :: "math_library \<Rightarrow> jsnum \<Rightarrow> jsnum" where
  "Math_sqrt M NaN = NaN"
| "Math_sqrt M PInf = PInf"
| "Math_sqrt M NInf = NaN"
| "Math_sqrt M NZero = NZero"
| "Math_sqrt M (Fin a) = (if a < 0 then NaN else if a = 0 then Fin 0 else approx_sqrt M a)"

fun Math_atan :: "math_library \<Rightarrow> jsnum \<Rightarrow> jsnum" where
  "Math_atan M NaN = NaN"
| "Math_atan M NZero = NZero"
| "Math_atan M (Fin a) = (if a = 0 then Fin 0 else approx_atan M (Fin a))"
| "Math_atan M a = approx_atan M a"

text \<open>\<open>Math.PI\<close> is the double nearest to \<open>\<pi>\<close>, \<open>884279719003555 / 2\<^sup>4\<^sup>8\<close>.\<close>

definition Math_PI :: jsnum where
  "Math_PI = Fin (884279719003555 / 2 ^ 48)"

text \<open>
  \<open>Math.min\<close> and \<open>Math.max\<close> return NaN as soon as one argument is NaN, and take negative
  zero to be smaller than positive zero.
\<close>

definition Math_min :: "jsnum \<Rightarrow> jsnum \<Rightarrow> jsnum" where
  "Math_min a b =
     (if js_isNaN a \<or> js_isNaN b then NaN
      else if js_zero a \<and> js_zero b then (if a = NZero \<or> b = NZero then NZero else Fin 0)
      else if js_less b a then b else a)"

definition Math_max :: "jsnum \<Rightarrow> jsnum \<Rightarrow> jsnum" where
  "Math_max a b =
     (if js_isNaN a \<or> js_isNaN b then NaN
      else if js_zero a \<and> js_zero b then (if a = NZero \<and> b = NZero then NZero else Fin 0)
      else if js_less a b then b else a)"

text \<open>
  \<open>Math.round\<close> gives the nearest integer, halves towards plus infinity; a negative
  argument that rounds to zero gives negative zero.
\<close>

fun Math_round :: "jsnum \<Rightarrow> jsnum" where
  "Math_round (Fin a) = (if a < 0 \<and> \<lfloor>a + 1 / 2\<rfloor> = 0 then NZero else Fin (of_int \<lfloor>a + 1 / 2\<rfloor>))"
| "Math_round a = a"

text \<open>
  Storing a number in a \<open>Uint8Array\<close> element: NaN, the infinities and the zeros become 0,
  any other value is truncated towards zero and reduced modulo 256.
\<close>

definition js_trunc :: "real \<Rightarrow> int" where
  "js_trunc a = (if a < 0 then - \<lfloor>- a\<rfloor> else \<lfloor>a\<rfloor>)"

fun ToUint8 :: "jsnum \<Rightarrow> 8 word" where
  "ToUint8 (Fin a) = word_of_int (js_trunc a)"
| "ToUint8 _ = 0"

section \<open>Tiles\<close>

text \<open>
  A tile is a width, a height and an accessor \<open>get\<close>. A \<open>HeightTile\<close> yields elevations, a
  \<open>SlopeAngleTile\<close> slope angles in degrees. Pixel dimensions are natural numbers and
  coordinates are integers. The accessor of a \<open>SlopeAngleTile\<close> is declared to return a
  number, but the one built by \<open>materialize\<close> reads a typed array and so can return
  \<open>undefined\<close>.
\<close>

record 'v tile =
  width :: nat
  height :: nat
  get :: "int \<Rightarrow> int \<Rightarrow> 'v"

type_synonym HeightTile = "jsnum tile"
type_synonym SlopeAngleTile = "jsval tile"

subsection \<open>\<open>SlopeAngleTile.fromHeightTile\<close>\<close>

definition fromHeightTile :: "math_library \<Rightarrow> HeightTile \<Rightarrow> jsnum \<Rightarrow> SlopeAngleTile" where
  "fromHeightTile M heightTile pixelSize =
     \<lparr>width = width heightTile,
      height = height heightTile,
      get = (\<lambda>x y.
        if x < 0 \<or> x \<ge> int (width heightTile) \<or> y < 0 \<or> y \<ge> int (height heightTile)
        then Number NaN
        else
          let z1 = get heightTile (x - 1) (y - 1);
              z2 = get heightTile x (y - 1);
              z3 = get heightTile (x + 1) (y - 1);
              z4 = get heightTile (x - 1) y;
              z6 = get heightTile (x + 1) y;
              z7 = get heightTile (x - 1) (y + 1);
              z8 = get heightTile x (y + 1);
              z9 = get heightTile (x + 1) (y + 1);
              values = [z1, z2, z3, z4, z6, z7, z8, z9]
          in if list_ex js_isNaN values then Number NaN
             else
               let dzdx = js_div (js_sub (js_add (js_add z3 (js_mul (Fin 2) z6)) z9)
                                         (js_add (js_add z1 (js_mul (Fin 2) z4)) z7))
                                 (js_mul (Fin 8) pixelSize);
                   dzdy = js_div (js_sub (js_add (js_add z7 (js_mul (Fin 2) z8)) z9)
                                         (js_add (js_add z1 (js_mul (Fin 2) z2)) z3))
                                 (js_mul (Fin 8) pixelSize);
                   slopeRadians = Math_atan M (Math_sqrt M (js_add (js_mul dzdx dzdx)
                                                                  (js_mul dzdy dzdy)));
                   slopeDegrees = js_div (js_mul slopeRadians (Fin 180)) Math_PI
               in Number slopeDegrees)\<rparr>"

text \<open>
  The specification of the slope computer, in its own words. The neighbourhood of a pixel
  is the row above (left, centre, right), the same row (left, right) and the row below
  (left, centre, right), in this order.
\<close>

definition neighborhood :: "HeightTile \<Rightarrow> int \<Rightarrow> int \<Rightarrow> jsnum list" where
  "neighborhood g x y =
     [get g (x - 1) (y - 1), get g x (y - 1), get g (x + 1) (y - 1),
      get g (x - 1) y, get g (x + 1) y,
      get g (x - 1) (y + 1), get g x (y + 1), get g (x + 1) (y + 1)]"

text \<open>
  Horn's estimator as the specification writes it, on a neighbourhood in that order:
  the two gradients, then \<open>atan(sqrt(dzdx\<^sup>2 + dzdy\<^sup>2)) \<sqdot> 180 / \<pi>\<close>.
\<close>

definition horn_dzdx :: "jsnum list \<Rightarrow> jsnum \<Rightarrow> jsnum" where
  "horn_dzdx z p =
     js_div (js_sub (js_add (js_add (z ! 2) (js_mul (Fin 2) (z ! 4))) (z ! 7))
                    (js_add (js_add (z ! 0) (js_mul (Fin 2) (z ! 3))) (z ! 5)))
            (js_mul (Fin 8) p)"

definition horn_dzdy :: "jsnum list \<Rightarrow> jsnum \<Rightarrow> jsnum" where
  "horn_dzdy z p =
     js_div (js_sub (js_add (js_add (z ! 5) (js_mul (Fin 2) (z ! 6))) (z ! 7))
                    (js_add (js_add (z ! 0) (js_mul (Fin 2) (z ! 1))) (z ! 2)))
            (js_mul (Fin 8) p)"

definition horn_js :: "math_library \<Rightarrow> jsnum list \<Rightarrow> jsnum \<Rightarrow> jsnum" where
  "horn_js M z p =
     js_div (js_mul (Math_atan M (Math_sqrt M
                       (js_add (js_mul (horn_dzdx z p) (horn_dzdx z p))
                               (js_mul (horn_dzdy z p) (horn_dzdy z p)))))
                    (Fin 180))
            Math_PI"

subsection \<open>\<open>SlopeAngleTile.toImageBuffer\<close>\<close>

text \<open>
  The body of the inner loop: one pixel, four writes through the running index
  \<open>bufferIdx\<close>. A write to a typed array outside its bounds is ignored, as
  \<open>list_update\<close> does.
\<close>

definition toImageBuffer_pixel ::
  "SlopeAngleTile \<Rightarrow> jsnum \<Rightarrow> nat \<Rightarrow> nat \<Rightarrow> 8 word list \<times> nat \<Rightarrow> 8 word list \<times> nat" where
  "toImageBuffer_pixel t maxAngle y x st =
     (let buffer = fst st; bufferIdx = snd st;
          angle = get t (int x) (int y);
          pixelValue =
            (if \<not> isNaN angle
             then Math_round (js_mul (Math_min (js_div (ToNumber angle) maxAngle) (Fin 1)) (Fin 255))
             else Fin 0);
          buffer = buffer[bufferIdx := ToUint8 pixelValue];
          buffer = buffer[bufferIdx + 1 := ToUint8 pixelValue];
          buffer = buffer[bufferIdx + 2 := ToUint8 pixelValue];
          buffer = buffer[bufferIdx + 3 := (if isNaN angle then 0 else 255)]
      in (buffer, bufferIdx + 4))"

definition toImageBuffer :: "SlopeAngleTile \<Rightarrow> jsnum \<Rightarrow> 8 word list" where
  "toImageBuffer t maxAngle =
     fst (fold (\<lambda>y. fold (toImageBuffer_pixel t maxAngle y) [0..<width t])
               [0..<height t]
               (replicate (width t * height t * 4) 0, 0))"

text \<open>
  The pixel value of the specification:
  \<open>v = round(clamp(angle / maxAngleDegrees, 0, 1) \<sqdot> 255)\<close>, as a byte.
\<close>

definition clamp01 :: "jsnum \<Rightarrow> jsnum" where
  "clamp01 r = Math_max (Fin 0) (Math_min r (Fin 1))"

definition spec_pixel :: "jsval \<Rightarrow> jsnum \<Rightarrow> 8 word" where
  "spec_pixel a maxAngle =
     ToUint8 (Math_round (js_mul (clamp01 (js_div (ToNumber a) maxAngle)) (Fin 255)))"

definition spec_alpha :: "jsval \<Rightarrow> 8 word" where
  "spec_alpha a = (if isNaN a then 0 else 255)"

text \<open>What the code stores in the three colour bytes.\<close>

definition code_pixel :: "jsval \<Rightarrow> jsnum \<Rightarrow> 8 word" where
  "code_pixel a maxAngle =
     (if isNaN a then 0
      else ToUint8 (Math_round (js_mul (Math_min (js_div (ToNumber a) maxAngle) (Fin 1)) (Fin 255))))"

subsection \<open>\<open>SlopeAngleTile.materialize\<close>\<close>

text \<open>
  \<open>Math.fround\<close>: the nearest 32-bit float, ties to even. A float has 24 significant bits
  and exponents from -126 to 127; below the normal range the spacing stays at
  \<open>2\<^sup>-\<^sup>1\<^sup>4\<^sup>9\<close>, and a value that rounds to \<open>2\<^sup>1\<^sup>2\<^sup>8\<close> or more becomes an infinity.
\<close>

definition fround_real :: "real \<Rightarrow> jsnum" where
  "fround_real r =
     (if r = 0 then Fin 0
      else
        let a = \<bar>r\<bar>;
            e = max \<lfloor>log 2 a\<rfloor> (- 126);
            ulp = 2 powi (e - 23);
            v = of_int (round_half_even (a / ulp)) * ulp
        in if 2 ^ 128 \<le> v then signed_inf (r < 0)
           else if v = 0 then signed_zero (r < 0)
           else Fin (sgn r * v))"

fun fround :: "jsnum \<Rightarrow> jsnum" where
  "fround (Fin r) = fround_real r"
| "fround a = a"

text \<open>
  Reading a typed array at an index: the element when the index is in range,
  \<open>undefined\<close> otherwise.
\<close>

definition typed_array_get :: "jsnum list \<Rightarrow> int \<Rightarrow> jsval" where
  "typed_array_get data i = (if 0 \<le> i \<and> i < int (length data) then Number (data ! nat i) else Undefined)"

definition materialize_pixel ::
  "SlopeAngleTile \<Rightarrow> nat \<Rightarrow> nat \<Rightarrow> jsnum list \<times> nat \<Rightarrow> jsnum list \<times> nat" where
  "materialize_pixel t y x st =
     (let data = fst st; idx = snd st
      in (data[idx := fround (ToNumber (get t (int x) (int y)))], idx + 1))"

definition materialize_data :: "SlopeAngleTile \<Rightarrow> jsnum list" where
  "materialize_data t =
     fst (fold (\<lambda>y. fold (materialize_pixel t y) [0..<width t])
               [0..<height t]
               (replicate (width t * height t) (Fin 0), 0))"

definition materialize :: "SlopeAngleTile \<Rightarrow> SlopeAngleTile" where
  "materialize t =
     (let data = materialize_data t
      in \<lparr>width = width t,
          height = height t,
          get = (\<lambda>x y. typed_array_get data (y * int (width t) + x))\<rparr>)"


subsection \<open>Loop invariant of the two raster loops\<close>

text \<open>
  Both \<open>toImageBuffer\<close> and \<open>materialize\<close> walk the pixels row by row and write \<open>k\<close>
  consecutive elements per pixel through a running index. After \<open>p\<close> pixels the index is
  \<open>p * k\<close> and the elements of pixel \<open>q < p\<close> hold \<open>v (q div w) (q mod w)\<close>.
\<close>

definition filled ::
  "(nat \<Rightarrow> nat \<Rightarrow> nat \<Rightarrow> 'a) \<Rightarrow> nat \<Rightarrow> nat \<Rightarrow> nat \<Rightarrow> 'a list \<times> nat \<Rightarrow> bool" where
  "filled v w k p st \<longleftrightarrow>
     snd st = p * k \<and> (\<forall>q<p. \<forall>c<k. fst st ! (q * k + c) = v (q div w) (q mod w) c)"

definition pixel_bytes :: "SlopeAngleTile \<Rightarrow> jsnum \<Rightarrow> nat \<Rightarrow> nat \<Rightarrow> nat \<Rightarrow> 8 word" where
  "pixel_bytes t maxAngle y x c =
     (if c < 3 then code_pixel (get t (int x) (int y)) maxAngle
      else spec_alpha (get t (int x) (int y)))"

definition stored_value :: "SlopeAngleTile \<Rightarrow> nat \<Rightarrow> nat \<Rightarrow> nat \<Rightarrow> jsnum" where
  "stored_value t y x c = fround (ToNumber (get t (int x) (int y)))"

subsection \<open>Example tiles\<close>

text \<open>A library whose approximations are the correctly rounded ones.\<close>

definition rounded_math :: math_library where
  "rounded_math =
     \<lparr>approx_sqrt = (\<lambda>a. double (sqrt a)),
      approx_atan = (\<lambda>x. case x of
                             PInf \<Rightarrow> double (pi / 2)
                           | NInf \<Rightarrow> double (- (pi / 2))
                           | Fin a \<Rightarrow> double (arctan a)
                           | _ \<Rightarrow> x)\<rparr>"

text \<open>The constructor of \<open>SlopeAngleTile\<close> accepts any accessor; these return one value.\<close>

definition constant_tile :: "nat \<Rightarrow> nat \<Rightarrow> jsnum \<Rightarrow> SlopeAngleTile" where
  "constant_tile w h v = \<lparr>width = w, height = h, get = (\<lambda>x y. Number v)\<rparr>"

text \<open>A tile whose value is the row number.\<close>

definition rows_tile :: "nat \<Rightarrow> nat \<Rightarrow> SlopeAngleTile" where
  "rows_tile w h = \<lparr>width = w, height = h, get = (\<lambda>x y. Number (Fin (of_int y)))\<rparr>"

text \<open>A flat elevation grid, answering 100 metres at every coordinate.\<close>

definition flat :: HeightTile where
  "flat = \<lparr>width = 2, height = 2, get = (\<lambda>x y. Fin 100)\<rparr>"

section \<open>The slope angle source\<close>

text \<open>A thrown value or the reason of a rejected promise.\<close>

datatype error = Error string

subsection \<open>Numbers in strings\<close>

text \<open>
  String concatenation with a number writes it in decimal. The counters that reach a
  string here start at 0 or 1 and grow by one, far below \<open>2\<^sup>5\<^sup>3\<close>, where a JavaScript
  number stops being an exact integer; they are natural numbers.
\<close>

definition digit_char :: "nat \<Rightarrow> char" where
  "digit_char d = char_of (48 + d)"

fun string_of_nat :: "nat \<Rightarrow> string" where
  "string_of_nat n =
     (if n < 10 then [digit_char n] else string_of_nat (n div 10) @ [digit_char (n mod 10)])"

declare string_of_nat.simps [simp del]

text \<open>Reading a decimal string back, used to show that distinct numbers give distinct strings.\<close>

definition digit_value :: "char \<Rightarrow> nat" where
  "digit_value c = of_char c - 48"

definition nat_of_string :: "string \<Rightarrow> nat" where
  "nat_of_string s = foldl (\<lambda>a c. 10 * a + digit_value c) 0 s"

lemma nat_of_string_of_nat: "nat_of_string (string_of_nat n) = n"
proof (induction n rule: string_of_nat.induct)
  case (1 n)
  show ?case
  proof (cases "n < 10")
    case True
    then show ?thesis
      by (subst string_of_nat.simps) (simp add: nat_of_string_def digit_value_def digit_char_def)
  next
    case False
    have d: "digit_value (digit_char (n mod 10)) = n mod 10"
      by (simp add: digit_value_def digit_char_def)
    have "nat_of_string (string_of_nat n)
          = 10 * nat_of_string (string_of_nat (n div 10)) + n mod 10"
      using False d by (subst string_of_nat.simps) (simp add: nat_of_string_def)
    then show ?thesis using 1 False by simp
  qed
qed

lemma string_of_nat_inj: "string_of_nat m = string_of_nat n \<Longrightarrow> m = n"
  by (metis nat_of_string_of_nat)

subsection \<open>The constructor: a protocol id that is not yet in use\<close>

text \<open>
  \<open>used\<close> is the module's set of prefixes handed out so far, kept in insertion order. The
  loop of the constructor tries \<open>id\<close>, \<open>id1\<close>, \<open>id2\<close>, \<dots> until one is free.
\<close>

lemma finite_suffixes: "finite {k. i \<le> k \<and> base @ string_of_nat k \<in> set (used :: string list)}"
proof -
  have "inj (\<lambda>k. base @ string_of_nat k)"
    by (auto intro!: injI dest: string_of_nat_inj)
  then have "finite ((\<lambda>k. base @ string_of_nat k) -` set used)"
    by (intro finite_vimageI) simp_all
  then show ?thesis by (rule rev_finite_subset) auto
qed

function protocolPrefix_loop :: "string list \<Rightarrow> string \<Rightarrow> string \<Rightarrow> nat \<Rightarrow> string" where
  "protocolPrefix_loop used base protocolPrefix i =
     (if protocolPrefix \<in> set used
      then protocolPrefix_loop used base (base @ string_of_nat i) (i + 1)
      else protocolPrefix)"
  by pat_completeness auto
termination
proof (relation "measure (\<lambda>(used, base, protocolPrefix, i).
         card {k. i \<le> k \<and> base @ string_of_nat k \<in> set used}
         + (if protocolPrefix \<in> set used then 1 else 0))")
  show "wf (measure (\<lambda>(used, base, protocolPrefix, i).
         card {k. i \<le> k \<and> base @ string_of_nat k \<in> set used}
         + (if protocolPrefix \<in> set used then 1 else 0)))"
    by simp
next
  fix used :: "string list" and base protocolPrefix :: string and i :: nat
  assume "protocolPrefix \<in> set used"
  let ?A = "\<lambda>j. {k. j \<le> k \<and> base @ string_of_nat k \<in> set used}"
  have split: "?A i = ?A (i + 1) \<union> (if base @ string_of_nat i \<in> set used then {i} else {})"
    by (auto simp add: Suc_le_eq le_less)
  have "card (?A i) = card (?A (i + 1)) + (if base @ string_of_nat i \<in> set used then 1 else 0)"
    by (subst split) (simp add: finite_suffixes)
  then show "((used, base, base @ string_of_nat i, i + 1), (used, base, protocolPrefix, i))
        \<in> measure (\<lambda>(used, base, protocolPrefix, i).
             card {k. i \<le> k \<and> base @ string_of_nat k \<in> set used}
             + (if protocolPrefix \<in> set used then 1 else 0))"
    using \<open>protocolPrefix \<in> set used\<close> by simp
qed

declare protocolPrefix_loop.simps [simp del]

definition Set_add :: "string \<Rightarrow> string list \<Rightarrow> string list" where
  "Set_add s used = (if s \<in> set used then used else used @ [s])"

datatype Timing = Finished string | Errored string

type_synonym 'dem DemManager = "jsnum \<Rightarrow> jsnum \<Rightarrow> jsnum \<Rightarrow> error + 'dem"

record 'dem SlopeAngleSource =
  slopeProtocolId :: string
  slopeProtocolUrl :: string
  demManager :: "'dem DemManager"
  timingCallbacks :: "(Timing \<Rightarrow> error option) list"

text \<open>
  The constructor takes the collaborator and the base id and updates the module's set. A
  timing callback returns \<open>None\<close> when it returns and \<open>Some e\<close> when it throws \<open>e\<close>.
\<close>

definition new_SlopeAngleSource ::
  "'dem DemManager \<Rightarrow> string \<Rightarrow> string list \<Rightarrow> 'dem SlopeAngleSource \<times> string list" where
  "new_SlopeAngleSource dm base used =
     (let protocolPrefix = protocolPrefix_loop used base base 1;
          used = Set_add protocolPrefix used;
          slopeProtocolId = protocolPrefix @ ''-slope''
      in (\<lparr>slopeProtocolId = slopeProtocolId,
           slopeProtocolUrl = slopeProtocolId @ ''://{z}/{x}/{y}'',
           demManager = dm,
           timingCallbacks = []\<rparr>, used))"

text \<open>Several constructions in a row, each on the set left by the one before.\<close>

fun construct_all ::
  "'dem DemManager \<Rightarrow> string list \<Rightarrow> string list \<Rightarrow> 'dem SlopeAngleSource list \<times> string list" where
  "construct_all dm [] used = ([], used)"
| "construct_all dm (base # bases) used =
     (let (src, used1) = new_SlopeAngleSource dm base used;
          (srcs, used2) = construct_all dm bases used1
      in (src # srcs, used2))"

definition onTiming :: "(Timing \<Rightarrow> error option) \<Rightarrow> 'dem SlopeAngleSource \<Rightarrow> 'dem SlopeAngleSource" where
  "onTiming callback src = src\<lparr>timingCallbacks := timingCallbacks src @ [callback]\<rparr>"

subsection \<open>Stitching the neighbours\<close>

text \<open>
  Modelled from the spec: \<open>HeightTile.combineNeighbors\<close>, whose source file
  (\<open>height-tile.ts\<close>) is not part of the sources at hand. The combination is absent when the
  centre (slot 4 of nw, n, ne, w, c, e, sw, s, se) is absent. Otherwise it has the centre's
  dimensions; its accessor delegates to the centre in bounds, to the neighbour in the
  direction of the offset for the ring one pixel outside (NaN when that neighbour is
  absent), and yields NaN beyond that ring.
\<close>

definition grid_at :: "HeightTile option list \<Rightarrow> nat \<Rightarrow> HeightTile option" where
  "grid_at neighbors i = (if i < length neighbors then neighbors ! i else None)"

definition combineNeighbors :: "HeightTile option list \<Rightarrow> HeightTile option" where
  "combineNeighbors neighbors =
     (case grid_at neighbors 4 of
        None \<Rightarrow> None
      | Some mainTile \<Rightarrow>
          Some \<lparr>width = width mainTile,
                height = height mainTile,
                get = (\<lambda>x y.
                  let w = int (width mainTile); h = int (height mainTile)
                  in if x < - 1 \<or> w < x \<or> y < - 1 \<or> h < y then NaN
                     else
                       let row = (if y < 0 then 0 else if y < h then 3 else 6);
                           col = (if x < 0 then 0 else if x < w then 1 else 2);
                           y' = (if y < 0 then y + h else if y < h then y else y - h);
                           x' = (if x < 0 then x + w else if x < w then x else x - w)
                       in case grid_at neighbors (row + col) of
                            None \<Rightarrow> NaN
                          | Some grid \<Rightarrow> get grid x' y')\<rparr>)"

subsection \<open>\<open>slopeProtocolV4\<close>\<close>

record ('d, 'e) GetResourceResponse =
  data :: 'd
  cacheControl :: "string option"
  expires :: "'e option"

text \<open>The answer of the protocol: the RGBA bytes and an expiry date in milliseconds.\<close>

type_synonym TileResponse = "(8 word list, int) GetResourceResponse"

text \<open>\<open>timingCallbacks.forEach((cb) => cb(timing))\<close>: stops at the first callback that throws.\<close>

fun forEach_timing :: "(Timing \<Rightarrow> error option) list \<Rightarrow> Timing \<Rightarrow> error option" where
  "forEach_timing [] timing = None"
| "forEach_timing (cb # cbs) timing =
     (case cb timing of Some e \<Rightarrow> Some e | None \<Rightarrow> forEach_timing cbs timing)"

text \<open>
  A call of \<open>fetchAndParseTile\<close> reaches the collaborator, which notes it, and returns a
  promise, given here by its eventual outcome. The collaborator's outcome for a tile is a
  function of the coordinates.
\<close>

type_synonym tile_call = "jsnum \<times> jsnum \<times> jsnum"

definition fetchAndParseTile ::
  "'dem DemManager \<Rightarrow> jsnum \<Rightarrow> jsnum \<Rightarrow> jsnum \<Rightarrow> tile_call list
     \<Rightarrow> (error + 'dem) \<times> tile_call list" where
  "fetchAndParseTile dm z x y calls = (dm z x y, calls @ [(z, x, y)])"

text \<open>
  \<open>Promise.allSettled\<close> waits for every promise and keeps each outcome, fulfilled or
  rejected, in its slot.
\<close>

datatype 'a PromiseSettledResult = fulfilled 'a | rejected error

definition allSettled :: "(error + 'a) list \<Rightarrow> 'a PromiseSettledResult list" where
  "allSettled promises =
     map (\<lambda>p. case p of Inr v \<Rightarrow> fulfilled v | Inl reason \<Rightarrow> rejected reason) promises"

text \<open>
  The \<open>try\<close> and \<open>catch\<close> blocks: the calls the collaborator received, the timing record and
  the outcome they leave. The request is given by the values that parsing its URL
  produces (the regular expression, \<open>URLSearchParams\<close> and \<open>parseFloat\<close> never throw);
  \<open>fromRawDem\<close>, whose source is not at hand, and the clock are parameters.
\<close>

record 'r attempt =
  calls :: "tile_call list"
  timing_record :: Timing
  outcome :: "error + 'r"

definition slopeProtocolV4_try ::
  "math_library \<Rightarrow> 'dem SlopeAngleSource \<Rightarrow> ('dem \<Rightarrow> HeightTile) \<Rightarrow> int \<Rightarrow> string
     \<Rightarrow> jsnum \<Rightarrow> jsnum \<Rightarrow> jsnum \<Rightarrow> jsnum \<Rightarrow> jsnum \<Rightarrow> TileResponse attempt" where
  "slopeProtocolV4_try M src fromRawDem now url z x y maxAngle pixelSize =
     (let (nw, log) = fetchAndParseTile (demManager src) z (js_sub x (Fin 1)) (js_sub y (Fin 1)) [];
          (n, log) = fetchAndParseTile (demManager src) z x (js_sub y (Fin 1)) log;
          (ne, log) = fetchAndParseTile (demManager src) z (js_add x (Fin 1)) (js_sub y (Fin 1)) log;
          (w, log) = fetchAndParseTile (demManager src) z (js_sub x (Fin 1)) y log;
          (c, log) = fetchAndParseTile (demManager src) z x y log;
          (e, log) = fetchAndParseTile (demManager src) z (js_add x (Fin 1)) y log;
          (sw, log) = fetchAndParseTile (demManager src) z (js_sub x (Fin 1)) (js_add y (Fin 1)) log;
          (s, log) = fetchAndParseTile (demManager src) z x (js_add y (Fin 1)) log;
          (se, log) = fetchAndParseTile (demManager src) z (js_add x (Fin 1)) (js_add y (Fin 1)) log;
          neighbors = allSettled [nw, n, ne, w, c, e, sw, s, se];
          heightTiles = map (\<lambda>result. case result of
                                          fulfilled v \<Rightarrow> Some (fromRawDem v)
                                        | rejected reason \<Rightarrow> None) neighbors
      in case combineNeighbors heightTiles of
           None \<Rightarrow>
             \<lparr>calls = log,
              timing_record = Errored url,
              outcome = Inl (Error ''Center tile is required but was not available'')\<rparr>
         | Some combinedHeightTile \<Rightarrow>
             let slopeAngleTile = fromHeightTile M combinedHeightTile pixelSize;
                 imageBuffer = toImageBuffer slopeAngleTile maxAngle
             in \<lparr>calls = log,
                 timing_record = Finished url,
                 outcome = Inr \<lparr>data = imageBuffer,
                                cacheControl = Some ''public, max-age=3600'',
                                expires = Some (now + 3600 * 1000)\<rparr>\<rparr>)"

text \<open>
  The whole function. The \<open>finally\<close> block runs the callbacks after either outcome; a
  value thrown there replaces the outcome.
\<close>

record v4_run =
  fetches :: "tile_call list"
  timing :: Timing
  settled :: "error + TileResponse"

definition slopeProtocolV4 ::
  "math_library \<Rightarrow> 'dem SlopeAngleSource \<Rightarrow> ('dem \<Rightarrow> HeightTile) \<Rightarrow> int \<Rightarrow> string
     \<Rightarrow> jsnum \<Rightarrow> jsnum \<Rightarrow> jsnum \<Rightarrow> jsnum \<Rightarrow> jsnum \<Rightarrow> v4_run" where
  "slopeProtocolV4 M src fromRawDem now url z x y maxAngle pixelSize =
     (let t = slopeProtocolV4_try M src fromRawDem now url z x y maxAngle pixelSize
      in \<lparr>fetches = calls t,
          timing = timing_record t,
          settled = (case forEach_timing (timingCallbacks src) (timing_record t) of
                       Some thrown \<Rightarrow> Inl thrown
                     | None \<Rightarrow> outcome t)\<rparr>)"

text \<open>
  For the proofs: the grid a slot ends up with, and the nine slots and the nine calls in
  the order nw, n, ne, w, c, e, sw, s, se.
\<close>

definition slot :: "'dem DemManager \<Rightarrow> ('dem \<Rightarrow> HeightTile) \<Rightarrow> jsnum \<Rightarrow> jsnum \<Rightarrow> jsnum \<Rightarrow> HeightTile option" where
  "slot dm fromRawDem z x y = (case dm z x y of Inr v \<Rightarrow> Some (fromRawDem v) | Inl reason \<Rightarrow> None)"

definition nine_slots ::
  "'dem DemManager \<Rightarrow> ('dem \<Rightarrow> HeightTile) \<Rightarrow> jsnum \<Rightarrow> jsnum \<Rightarrow> jsnum \<Rightarrow> HeightTile option list" where
  "nine_slots dm fromRawDem z x y =
     [slot dm fromRawDem z (js_sub x (Fin 1)) (js_sub y (Fin 1)),
      slot dm fromRawDem z x (js_sub y (Fin 1)),
      slot dm fromRawDem z (js_add x (Fin 1)) (js_sub y (Fin 1)),
      slot dm fromRawDem z (js_sub x (Fin 1)) y,
      slot dm fromRawDem z x y,
      slot dm fromRawDem z (js_add x (Fin 1)) y,
      slot dm fromRawDem z (js_sub x (Fin 1)) (js_add y (Fin 1)),
      slot dm fromRawDem z x (js_add y (Fin 1)),
      slot dm fromRawDem z (js_add x (Fin 1)) (js_add y (Fin 1))]"

definition nine_calls :: "jsnum \<Rightarrow> jsnum \<Rightarrow> jsnum \<Rightarrow> tile_call list" where
  "nine_calls z x y =
     [(z, js_sub x (Fin 1), js_sub y (Fin 1)),
      (z, x, js_sub y (Fin 1)),
      (z, js_add x (Fin 1), js_sub y (Fin 1)),
      (z, js_sub x (Fin 1), y),
      (z, x, y),
      (z, js_add x (Fin 1), y),
      (z, js_sub x (Fin 1), js_add y (Fin 1)),
      (z, x, js_add y (Fin 1)),
      (z, js_add x (Fin 1), js_add y (Fin 1))]"

subsection \<open>\<open>v3compat\<close>\<close>

text \<open>
  The legacy callback receives either \<open>(undefined, data, cacheControl, expires)\<close> or
  \<open>(err)\<close>. It returns \<open>None\<close> when it returns and \<open>Some e\<close> when it throws \<open>e\<close>.
\<close>

datatype callback_args =
    Result "8 word list" "string option" "int option"
  | Failure error

type_synonym ResponseCallbackV3 = "callback_args \<Rightarrow> error option"

datatype arg2 = AbortController | Callback ResponseCallbackV3

text \<open>
  What a call of the wrapped protocol gives: the promise of \<open>v4\<close> itself, or a cancel handle
  together with what happened meanwhile: the calls of the callback, in order, and the
  rejection left unhandled at the end of the promise chain, if any.
\<close>

datatype v3_result =
    Promise "error + TileResponse"
  | Cancel "callback_args list" "error option"

definition v3compat :: "(string \<Rightarrow> error + TileResponse) \<Rightarrow> string \<Rightarrow> arg2 \<Rightarrow> v3_result" where
  "v3compat v4 requestParameters a2 =
     (case a2 of
        AbortController \<Rightarrow> Promise (v4 requestParameters)
      | Callback cb \<Rightarrow>
          let first_args = (case v4 requestParameters of
                              Inr result \<Rightarrow> Result (data result) (cacheControl result) (expires result)
                            | Inl err \<Rightarrow> Failure err)
          in case cb first_args of
               None \<Rightarrow> Cancel [first_args] None
             | Some thrown \<Rightarrow> Cancel [first_args, Failure thrown] (cb (Failure thrown)))"

subsection \<open>Example sources\<close>

text \<open>A collaborator whose every fetch fails, one that always succeeds, one with a gap.\<close>

definition failing_manager :: "unit DemManager" where
  "failing_manager = (\<lambda>z x y. Inl (Error ''404''))"

definition flat_manager :: "unit DemManager" where
  "flat_manager = (\<lambda>z x y. Inr ())"

definition no_west_manager :: "unit DemManager" where
  "no_west_manager = (\<lambda>z x y. if x = Fin 9 then Inl (Error ''404'') else Inr ())"

definition flat_dem :: "unit \<Rightarrow> HeightTile" where
  "flat_dem d = \<lparr>width = 1, height = 1, get = (\<lambda>x y. Fin 100)\<rparr>"

definition example_source :: "unit DemManager \<Rightarrow> unit SlopeAngleSource" where
  "example_source dm = fst (new_SlopeAngleSource dm ''slope'' [])"

definition throwing_callback :: "Timing \<Rightarrow> error option" where
  "throwing_callback t = Some (Error ''listener failed'')"

definition quiet_callback :: "Timing \<Rightarrow> error option" where
  "quiet_callback t = None"

definition late_callback :: "Timing \<Rightarrow> error option" where
  "late_callback t = Some (Error ''second listener failed'')"

definition example_v4 :: "string \<Rightarrow> error + TileResponse" where
  "example_v4 request =
     Inr \<lparr>data = [0, 0, 0, 255], cacheControl = Some ''public, max-age=3600'', expires = Some 3600000\<rparr>"

definition throwing_once :: ResponseCallbackV3 where
  "throwing_once args = (case args of Result d c e \<Rightarrow> Some (Error ''render failed'') | Failure e \<Rightarrow> None)"

section \<open>The bridge between worker and host\<close>

text \<open>
  A worker cannot call the protocols registered with the map, so \<open>getData\<close> in the worker
  either fetches an \<open>https\<close> URL itself or posts a request to the host and waits for the
  message that answers it. Messages carry an id and a payload.
\<close>

datatype 'p message = Message (message_id: string) (payload: 'p)

datatype 'p promise = Pending | Fulfilled 'p | Rejected error

type_synonym FetchResponse = "(8 word list, string) GetResourceResponse"

text \<open>What \<open>fetch\<close> resolves to, as far as \<open>getData\<close> looks at it.\<close>

record Response =
  ok :: bool
  status :: nat
  blob :: "error + 8 word list"
  headers :: "string \<rightharpoonup> string"

text \<open>
  The state of the worker module: the counter \<open>id\<close>, the object \<open>callbacks\<close> from event ids to
  resolvers, the promises created so far (a resolver is the number of its promise), the
  messages posted to the host and the calls of resolvers, both in order.
\<close>

record worker =
  id_counter :: nat
  callbacks :: "string \<rightharpoonup> nat"
  promises :: "FetchResponse promise list"
  posted :: "string message list"
  resolved :: "(nat \<times> FetchResponse) list"

definition initial :: worker where
  "initial = \<lparr>id_counter = 0, callbacks = Map.empty, promises = [], posted = [], resolved = []\<rparr>"

definition idPrefix :: string where
  "idPrefix = ''maplibre-contours-get-data-''"

text \<open>Calling the resolver of a promise settles it if it is pending and does nothing otherwise.\<close>

definition resolve :: "nat \<Rightarrow> 'p \<Rightarrow> 'p promise list \<Rightarrow> 'p promise list" where
  "resolve r v ps = (if r < length ps \<and> ps ! r = Pending then ps[r := Fulfilled v] else ps)"

text \<open>The message listener of the worker: \<open>callbacks[id]?.(payload); delete callbacks[id]\<close>.\<close>

definition on_message :: "FetchResponse message \<Rightarrow> worker \<Rightarrow> worker" where
  "on_message m s =
     (let s1 = (case callbacks s (message_id m) of
                  None \<Rightarrow> s
                | Some r \<Rightarrow> s\<lparr>promises := resolve r (payload m) (promises s),
                              resolved := resolved s @ [(r, payload m)]\<rparr>)
      in s1\<lparr>callbacks := (callbacks s1)(message_id m := None)\<rparr>)"

text \<open>\<open>x || undefined\<close> on a header: absent and empty both give \<open>undefined\<close>.\<close>

definition or_undefined :: "string option \<Rightarrow> string option" where
  "or_undefined h = (case h of None \<Rightarrow> None | Some v \<Rightarrow> if v = [] then None else Some v)"

text \<open>
  \<open>getData\<close> returns its promise and the new state. \<open>fetch\<close> is the platform's, a parameter:
  it rejects or gives a response.
\<close>

definition getData :: "(string \<Rightarrow> error + Response) \<Rightarrow> string \<Rightarrow> worker \<Rightarrow> nat \<times> worker" where
  "getData fetch url s =
     (if prefix ''https://'' url
      then
        let outcome =
              (case fetch url of
                 Inl e \<Rightarrow> Rejected e
               | Inr response \<Rightarrow>
                   if \<not> ok response
                   then Rejected (Error (''Bad response: '' @ string_of_nat (status response)
                                         @ '' for '' @ url))
                   else (case blob response of
                           Inl e \<Rightarrow> Rejected e
                         | Inr b \<Rightarrow>
                             Fulfilled \<lparr>data = b,
                                        cacheControl = or_undefined (headers response ''cache-control''),
                                        expires = or_undefined (headers response ''expires'')\<rparr>))
        in (length (promises s), s\<lparr>promises := promises s @ [outcome]\<rparr>)
      else
        let eventId = idPrefix @ string_of_nat (id_counter s);
            s = s\<lparr>id_counter := id_counter s + 1\<rparr>;
            s = s\<lparr>posted := posted s @ [Message eventId url]\<rparr>;
            promise = length (promises s);
            s = s\<lparr>promises := promises s @ [Pending]\<rparr>;
            s = s\<lparr>callbacks := (callbacks s)(eventId \<mapsto> promise)\<rparr>
        in (promise, s))"

text \<open>What happens in the worker, one event after the other.\<close>

datatype event = GetData string | Deliver "FetchResponse message"

fun step :: "(string \<Rightarrow> error + Response) \<Rightarrow> event \<Rightarrow> worker \<Rightarrow> worker" where
  "step fetch (GetData url) s = snd (getData fetch url s)"
| "step fetch (Deliver m) s = on_message m s"

definition run :: "(string \<Rightarrow> error + Response) \<Rightarrow> event list \<Rightarrow> worker \<Rightarrow> worker" where
  "run fetch es s = fold (step fetch) es s"

text \<open>
  The listener that \<open>registerMapLibreProtocolHandler\<close> installs in the host. It gives the
  value it throws, if any, and the messages it posts back to the worker. A protocol
  takes the URL of the request and rejects or gives a response.
\<close>

definition host_listener ::
  "(string \<Rightarrow> (string \<Rightarrow> error + FetchResponse) option) \<Rightarrow> string message
     \<Rightarrow> error option \<times> FetchResponse message list" where
  "host_listener getProtocol m =
     (if \<not> prefix idPrefix (message_id m) then (None, [])
      else case getProtocol (payload m) of
             None \<Rightarrow> (Some (Error ''No registered protocol handler for undefined''), [])
           | Some protocol \<Rightarrow>
               (case protocol (payload m) of
                  Inl e \<Rightarrow> (Some e, [])
                | Inr result \<Rightarrow> (None, [Message (message_id m) result])))"

subsection \<open>Invariants of the worker\<close>

text \<open>
  Every id posted or registered so far was made from a counter value below the current
  one, no id was posted twice, and every registered resolver belongs to a promise that
  exists and to one id only.
\<close>

definition wf_worker :: "worker \<Rightarrow> bool" where
  "wf_worker s \<longleftrightarrow>
     (\<forall>m \<in> set (posted s). \<exists>n < id_counter s. message_id m = idPrefix @ string_of_nat n)
     \<and> distinct (map message_id (posted s))
     \<and> (\<forall>k r. callbacks s k = Some r \<longrightarrow>
           r < length (promises s) \<and> (\<exists>n < id_counter s. k = idPrefix @ string_of_nat n))
     \<and> (\<forall>k k' r. callbacks s k = Some r \<and> callbacks s k' = Some r \<longrightarrow> k = k')"

text \<open>Promise \<open>p\<close> is pending and waits for a message with id \<open>k\<close>.\<close>

definition waits_for :: "worker \<Rightarrow> nat \<Rightarrow> string \<Rightarrow> bool" where
  "waits_for s p k \<longleftrightarrow>
     wf_worker s \<and> p < length (promises s) \<and> promises s ! p = Pending \<and> callbacks s k = Some p"

subsection \<open>Example traffic\<close>

definition no_fetch :: "string \<Rightarrow> error + Response" where
  "no_fetch url = Inl (Error ''offline'')"

definition tile_bytes :: FetchResponse where
  "tile_bytes = \<lparr>data = [1, 2, 3], cacheControl = None, expires = None\<rparr>"

definition no_protocol :: "string \<Rightarrow> (string \<Rightarrow> error + FetchResponse) option" where
  "no_protocol url = None"

section \<open>Properties of the slope raster\<close>

subsection \<open>Doubles that need no rounding\<close>

lemma floor_log2_unique:
  assumes "2 powi e \<le> a" "a < 2 powi (e + 1)"
  shows "\<lfloor>log 2 a\<rfloor> = e"
proof -
  have "(0::real) < 2 powi e" by simp
  then have pos: "0 < a" using assms(1) by linarith
  have p: "2 powr real_of_int k = (2::real) powi k" for k
    by (rule powr_real_of_int') simp_all
  have "(\<lfloor>log 2 a\<rfloor> = e) = (2 powr real_of_int e \<le> a \<and> a < 2 powr real_of_int (e + 1))"
    by (rule floor_log_eq_powr_iff) (use pos in simp_all)
  then show ?thesis
    unfolding p using assms by blast
qed

lemma round_half_even_int: "round_half_even (of_int k) = k"
  by (simp add: round_half_even_def)

text \<open>A positive integer below \<open>2\<^sup>5\<^sup>3\<close> is a double.\<close>

lemma double_mag_nat:
  assumes "0 < n" "n < 2 ^ 53"
  shows "double_mag (of_nat n) = of_nat n"
proof -
  define e where "e = \<lfloor>log 2 (real n)\<rfloor>"
  have pos: "0 < real n" using assms(1) by simp
  have p: "2 powr real_of_int k = (2::real) powi k" for k
    by (rule powr_real_of_int') simp_all
  have "0 \<le> log 2 (real n)" using assms(1) by simp
  then have e0: "0 \<le> e" unfolding e_def by simp
  have "real n < 2 ^ 53" using assms(2) by (metis of_nat_less_numeral_power_cancel_iff)
  then have "log 2 (real n) < 53" using pos
    by (simp add: log_less_iff powr_realpow)
  then have e52: "e \<le> 52" unfolding e_def by (simp add: floor_le_iff)
  have m: "max e (- 1022) = e" using e0 by simp
  define j where "j = nat (52 - e)"
  have ulp: "(2::real) powi (e - 52) = 1 / 2 ^ j"
  proof -
    have "e - 52 = - int j" using e52 by (simp add: j_def)
    then have "(2::real) powi (e - 52) = 2 powi (- int j)" by simp
    also have "\<dots> = 1 / 2 ^ j" by (simp add: power_int_minus divide_inverse)
    finally show ?thesis .
  qed
  have q: "real n / 2 powi (e - 52) = of_int (int n * 2 ^ j)"
    by (simp add: ulp)
  have "double_mag (real n) = of_int (round_half_even (real n / 2 powi (e - 52))) * 2 powi (e - 52)"
    by (simp add: double_mag_def Let_def e_def[symmetric] m)
  also have "\<dots> = of_int (int n * 2 ^ j) * 2 powi (e - 52)"
    by (simp only: q round_half_even_int)
  also have "\<dots> = of_int (int n * 2 ^ j) * (1 / 2 ^ j)"
    by (simp only: ulp)
  also have "\<dots> = real n" by simp
  finally show ?thesis .
qed

lemma double_of_nat:
  assumes "0 < n" "n < 2 ^ 53"
  shows "double_of neg (of_nat n) = Fin (if neg then - of_nat n else of_nat n)"
proof -
  have "real n < 2 ^ 53" using assms(2) by (metis of_nat_less_numeral_power_cancel_iff)
  also have "\<dots> < (2::real) ^ 1024" by simp
  finally have "\<not> (2::real) ^ 1024 \<le> real n" by simp
  then show ?thesis
    using assms(1) by (simp add: double_of_def double_mag_nat[OF assms])
qed

lemma double_of_zero: "double_of neg 0 = signed_zero neg"
  by (simp add: double_of_def)

lemma double_nat:
  assumes "0 < n" "n < 2 ^ 53"
  shows "double (of_nat n) = Fin (of_nat n)"
  using double_of_nat[OF assms, of False] assms(1) by (simp add: double_def)

text \<open>Evaluating the rounding of a magnitude, given its exponent.\<close>

lemma double_mag_eval:
  assumes "2 powi e \<le> m" "m < 2 powi (e + 1)" "- 1022 \<le> e"
    and "round_half_even (m / 2 powi (e - 52)) = k"
  shows "double_mag m = of_int k * 2 powi (e - 52)"
proof -
  have "\<lfloor>log 2 m\<rfloor> = e" using assms(1,2) by (rule floor_log2_unique)
  then have "max \<lfloor>log 2 m\<rfloor> (- 1022) = e" using assms(3) by simp
  then show ?thesis
    unfolding double_mag_def Let_def using assms(4) by simp
qed

lemma round_half_even_below:
  assumes "of_int f \<le> q" "q < of_int f + 1 / 2"
  shows "round_half_even q = f"
proof -
  have "\<lfloor>q\<rfloor> = f" using assms by (simp add: floor_eq_iff)
  then show ?thesis using assms by (simp add: round_half_even_def Let_def)
qed

lemma round_half_even_above:
  assumes "of_int f + 1 / 2 < q" "q < of_int f + 1"
  shows "round_half_even q = f + 1"
proof -
  have "\<lfloor>q\<rfloor> = f" using assms by (simp add: floor_eq_iff)
  then show ?thesis using assms by (simp add: round_half_even_def Let_def)
qed

subsection \<open>Overflow\<close>

text \<open>Twice the elevation \<open>2\<^sup>1\<^sup>0\<^sup>2\<^sup>3\<close> is beyond the largest double.\<close>

lemma twice_overflows: "js_mul (Fin 2) (Fin (2 ^ 1023)) = PInf"
proof -
  have "double_mag (2 ^ 1024) = of_int (2 ^ 52) * 2 powi (1024 - 52)"
  proof (rule double_mag_eval)
    show "round_half_even (2 ^ 1024 / 2 powi (1024 - 52)) = 2 ^ 52"
    proof -
      have "(2::real) ^ 1024 / 2 powi (1024 - 52) = of_int (2 ^ 52)"
        by (simp add: power_int_def)
      then show ?thesis by (simp only: round_half_even_int)
    qed
  qed (simp_all add: power_int_def)
  also have "\<dots> = 2 ^ 1024" by (simp add: power_int_def)
  finally have "double_mag (2 ^ 1024) = 2 ^ 1024" .
  then show ?thesis
    by (simp add: js_mul_def double_of_def signed_inf_def)
qed

text \<open>
  When doubling a sample overflows, both row sums are infinite, their difference is NaN
  and so is the slope, although no sample is NaN.
\<close>

lemma horn_overflow:
  assumes "js_mul (Fin 2) h = PInf" "js_finite h"
  shows "horn_js M [h, h, h, h, h, h, h, h] p = NaN"
proof -
  have s: "js_add (js_add h (js_mul (Fin 2) h)) h = PInf"
    using assms by (cases h) (simp_all add: js_add_def)
  have d: "js_sub PInf PInf = NaN" by (simp add: js_sub_def js_add_def)
  have q: "js_div NaN d = NaN" for d by (simp add: js_div_def)
  have dx: "horn_dzdx [h, h, h, h, h, h, h, h] p = NaN"
    by (simp add: horn_dzdx_def numeral_eq_Suc s d q)
  show ?thesis
    unfolding horn_js_def dx by (simp add: js_mul_def js_add_def js_div_def)
qed

lemma steep_overflow:
  "horn_js M [Fin (2 ^ 1023), Fin (2 ^ 1023), Fin (2 ^ 1023), Fin (2 ^ 1023),
              Fin (2 ^ 1023), Fin (2 ^ 1023), Fin (2 ^ 1023), Fin (2 ^ 1023)] (Fin 30) = NaN"
  by (rule horn_overflow) (simp_all only: twice_overflows js_finite.simps)

subsection \<open>A flat neighbourhood\<close>

lemma js_sub_self:
  assumes "js_finite s"
  shows "js_sub s s = Fin 0"
  using assms by (cases s) (simp_all add: js_sub_def js_add_def)

lemma zero_quotient:
  assumes "\<not> js_isNaN d" "\<not> js_zero d"
  shows "js_zero (js_div (Fin 0) d)"
  using assms
  by (cases d) (simp_all add: js_div_def signed_zero_def double_of_zero)

lemma zero_square:
  assumes "js_zero q"
  shows "js_mul q q = Fin 0"
  using assms by (cases q) (simp_all add: js_mul_def double_of_zero signed_zero_def)

lemma zero_degrees: "js_div (js_mul (Math_atan M (Math_sqrt M (Fin 0))) (Fin 180)) Math_PI = Fin 0"
  by (simp add: js_mul_def js_div_def double_of_zero signed_zero_def Math_PI_def)

text \<open>
  The slope of a flat neighbourhood is exactly zero, provided the weighted row sum does
  not overflow and eight times the pixel size is a number other than zero.
\<close>

lemma horn_flat:
  assumes "js_finite (js_add (js_add z (js_mul (Fin 2) z)) z)"
    and "\<not> js_isNaN (js_mul (Fin 8) p)" "\<not> js_zero (js_mul (Fin 8) p)"
  shows "horn_js M [z, z, z, z, z, z, z, z] p = Fin 0"
proof -
  let ?s = "js_add (js_add z (js_mul (Fin 2) z)) z"
  have dx: "horn_dzdx [z, z, z, z, z, z, z, z] p = js_div (js_sub ?s ?s) (js_mul (Fin 8) p)"
    by (simp add: horn_dzdx_def numeral_eq_Suc)
  have dy: "horn_dzdy [z, z, z, z, z, z, z, z] p = js_div (js_sub ?s ?s) (js_mul (Fin 8) p)"
    by (simp add: horn_dzdy_def numeral_eq_Suc)
  have "js_zero (js_div (js_sub ?s ?s) (js_mul (Fin 8) p))"
    unfolding js_sub_self[OF assms(1)] using assms(2,3) by (rule zero_quotient)
  then have sq: "js_mul (js_div (js_sub ?s ?s) (js_mul (Fin 8) p))
                        (js_div (js_sub ?s ?s) (js_mul (Fin 8) p)) = Fin 0"
    by (rule zero_square)
  have sum: "js_add (Fin 0) (Fin 0) = Fin 0" by (simp add: js_add_def)
  show ?thesis
    unfolding horn_js_def dx dy sq sum by (rule zero_degrees)
qed

lemma flat_row_sum: "js_add (js_add (Fin 100) (js_mul (Fin 2) (Fin 100))) (Fin 100) = Fin 400"
proof -
  have a: "js_mul (Fin 2) (Fin 100) = Fin 200"
    using double_of_nat[of 200 False] by (simp add: js_mul_def)
  have b: "js_add (Fin 100) (Fin 200) = Fin 300"
    using double_nat[of 300] by (simp add: js_add_def)
  have c: "js_add (Fin 300) (Fin 100) = Fin 400"
    using double_nat[of 400] by (simp add: js_add_def)
  show ?thesis by (simp only: a b c)
qed

lemma flat_pixel_size: "js_mul (Fin 8) (Fin 30) = Fin 240"
  using double_of_nat[of 240 False] by (simp add: js_mul_def)

lemma fromHeightTile_get:
  "get (fromHeightTile M h p) x y =
     (if x < 0 \<or> int (width h) \<le> x \<or> y < 0 \<or> int (height h) \<le> y then Number NaN
      else if \<exists>z \<in> set (neighborhood h x y). js_isNaN z then Number NaN
      else Number (horn_js M (neighborhood h x y) p))"
  by (simp add: fromHeightTile_def neighborhood_def horn_js_def horn_dzdx_def horn_dzdy_def Let_def)

lemma flat_slope:
  assumes "0 \<le> x" "x < 2" "0 \<le> y" "y < 2"
  shows "get (fromHeightTile M flat (Fin 30)) x y = Number (Fin 0)"
proof -
  have n: "neighborhood flat x y
           = [Fin 100, Fin 100, Fin 100, Fin 100, Fin 100, Fin 100, Fin 100, Fin 100]"
    by (simp add: neighborhood_def flat_def)
  have "horn_js M (neighborhood flat x y) (Fin 30) = Fin 0"
    unfolding n by (rule horn_flat) (simp_all add: flat_row_sum flat_pixel_size)
  then show ?thesis
    using assms n by (simp add: fromHeightTile_get flat_def)
qed



subsection \<open>The raster loops\<close>

lemma pixel_index_bound:
  fixes x y w h k :: nat
  assumes "x < w" "y < h"
  shows "(y * w + x) * k + k \<le> w * h * k"
proof -
  have "y * w + x + 1 \<le> Suc y * w" using assms(1) by simp
  also have "\<dots> \<le> h * w" using assms(2) by (intro mult_le_mono1) simp
  finally have "(y * w + x + 1) * k \<le> (h * w) * k" by (rule mult_le_mono1)
  then show ?thesis by (simp add: algebra_simps)
qed

text \<open>One row: the inner loop extends the invariant by the pixels of row \<open>y\<close>.\<close>

lemma row_fill:
  fixes f :: "nat \<Rightarrow> nat \<Rightarrow> 'a list \<times> nat \<Rightarrow> 'a list \<times> nat"
  assumes idx: "\<And>y x st. snd (f y x st) = snd st + k"
    and len: "\<And>y x st. length (fst (f y x st)) = length (fst st)"
    and val: "\<And>y x st c. c < k \<Longrightarrow> snd st + k \<le> length (fst st)
                \<Longrightarrow> fst (f y x st) ! (snd st + c) = v y x c"
    and frame: "\<And>y x st j. j < snd st \<Longrightarrow> fst (f y x st) ! j = fst st ! j"
    and n: "n \<le> w" and y: "y < h"
    and L: "length (fst st) = w * h * k"
    and st: "filled v w k (y * w) st"
  shows "filled v w k (y * w + n) (fold (f y) [0..<n] st)
         \<and> length (fst (fold (f y) [0..<n] st)) = w * h * k"
  using n
proof (induction n)
  case 0
  then show ?case using st L by simp
next
  case (Suc n)
  let ?s = "fold (f y) [0..<n] st"
  have nw: "n < w" using Suc.prems by simp
  have IH: "filled v w k (y * w + n) ?s" and IL: "length (fst ?s) = w * h * k"
    using Suc.IH nw by simp_all
  have sidx: "snd ?s = (y * w + n) * k" using IH by (simp add: filled_def)
  have room: "snd ?s + k \<le> length (fst ?s)"
    using pixel_index_bound[OF nw y, of k] sidx IL by simp
  have step: "fold (f y) [0..<Suc n] st = f y n ?s" by simp
  have "filled v w k (y * w + Suc n) (f y n ?s)"
    unfolding filled_def
  proof (intro conjI allI impI)
    show "snd (f y n ?s) = (y * w + Suc n) * k" using idx sidx by (simp add: algebra_simps)
  next
    fix q c assume q: "q < y * w + Suc n" and c: "c < k"
    show "fst (f y n ?s) ! (q * k + c) = v (q div w) (q mod w) c"
    proof (cases "q = y * w + n")
      case True
      have "q div w = y" "q mod w = n" using True nw by simp_all
      moreover have "fst (f y n ?s) ! (snd ?s + c) = v y n c" using val[OF c room] .
      ultimately show ?thesis using sidx True by simp
    next
      case False
      then have ql: "q < y * w + n" using q by simp
      then have "Suc q \<le> y * w + n" by simp
      then have "Suc q * k \<le> (y * w + n) * k" by (rule mult_le_mono1)
      then have "q * k + c < snd ?s" using c sidx by simp
      then have "fst (f y n ?s) ! (q * k + c) = fst ?s ! (q * k + c)" by (rule frame)
      then show ?thesis using IH ql c by (simp add: filled_def)
    qed
  qed
  then show ?case using step IL len by simp
qed

text \<open>All rows: the outer loop.\<close>

lemma grid_fill:
  fixes f :: "nat \<Rightarrow> nat \<Rightarrow> 'a list \<times> nat \<Rightarrow> 'a list \<times> nat"
  assumes idx: "\<And>y x st. snd (f y x st) = snd st + k"
    and len: "\<And>y x st. length (fst (f y x st)) = length (fst st)"
    and val: "\<And>y x st c. c < k \<Longrightarrow> snd st + k \<le> length (fst st)
                \<Longrightarrow> fst (f y x st) ! (snd st + c) = v y x c"
    and frame: "\<And>y x st j. j < snd st \<Longrightarrow> fst (f y x st) ! j = fst st ! j"
    and m: "m \<le> h"
    and L: "length buf = w * h * k"
  shows "filled v w k (m * w) (fold (\<lambda>y. fold (f y) [0..<w]) [0..<m] (buf, 0))
         \<and> length (fst (fold (\<lambda>y. fold (f y) [0..<w]) [0..<m] (buf, 0))) = w * h * k"
  using m
proof (induction m)
  case 0
  then show ?case using L by (simp add: filled_def)
next
  case (Suc m)
  let ?s = "fold (\<lambda>y. fold (f y) [0..<w]) [0..<m] (buf, 0)"
  have mh: "m < h" using Suc.prems by simp
  have IH: "filled v w k (m * w) ?s" and IL: "length (fst ?s) = w * h * k"
    using Suc.IH mh by simp_all
  have "filled v w k (m * w + w) (fold (f m) [0..<w] ?s)
        \<and> length (fst (fold (f m) [0..<w] ?s)) = w * h * k"
    by (rule row_fill[OF idx len val frame order_refl mh IL IH])
  then show ?case by (simp add: add.commute)
qed

subsection \<open>\<open>toImageBuffer\<close>\<close>

lemma toImageBuffer_pixel_idx: "snd (toImageBuffer_pixel t m y x st) = snd st + 4"
  by (simp add: toImageBuffer_pixel_def Let_def)

lemma toImageBuffer_pixel_len: "length (fst (toImageBuffer_pixel t m y x st)) = length (fst st)"
  by (simp add: toImageBuffer_pixel_def Let_def)

lemma toImageBuffer_pixel_val:
  assumes "c < 4" "snd st + 4 \<le> length (fst st)"
  shows "fst (toImageBuffer_pixel t m y x st) ! (snd st + c) = pixel_bytes t m y x c"
proof -
  from assms(1) consider "c = 0" | "c = 1" | "c = 2" | "c = 3" by linarith
  then show ?thesis
    using assms(2)
    by cases (simp_all add: toImageBuffer_pixel_def Let_def pixel_bytes_def code_pixel_def
        spec_alpha_def js_trunc_def)
qed

lemma toImageBuffer_pixel_frame:
  assumes "j < snd st"
  shows "fst (toImageBuffer_pixel t m y x st) ! j = fst st ! j"
  using assms by (simp add: toImageBuffer_pixel_def Let_def)

lemma toImageBuffer_filled:
  "filled (pixel_bytes t m) (width t) 4 (height t * width t)
     (fold (\<lambda>y. fold (toImageBuffer_pixel t m y) [0..<width t]) [0..<height t]
        (replicate (width t * height t * 4) 0, 0))
   \<and> length (toImageBuffer t m) = width t * height t * 4"
  unfolding toImageBuffer_def
  by (rule grid_fill[OF toImageBuffer_pixel_idx toImageBuffer_pixel_len
        toImageBuffer_pixel_val toImageBuffer_pixel_frame]) simp_all

lemma toImageBuffer_length: "length (toImageBuffer t m) = width t * height t * 4"
  using toImageBuffer_filled[of t m] by simp

lemma toImageBuffer_nth:
  assumes "x < width t" "y < height t" "c < 4"
  shows "toImageBuffer t m ! ((y * width t + x) * 4 + c) = pixel_bytes t m y x c"
proof -
  have "y * width t + x < Suc y * width t" using assms(1) by simp
  also have "\<dots> \<le> height t * width t" using assms(2) by (intro mult_le_mono1) simp
  finally have q: "y * width t + x < height t * width t" .
  have "(y * width t + x) div width t = y" "(y * width t + x) mod width t = x"
    using assms(1) by simp_all
  then show ?thesis
    using toImageBuffer_filled[of t m] q assms(3)
    by (auto simp add: filled_def toImageBuffer_def)
qed

text \<open>
  Without a negative quotient the missing lower clamp makes no difference to the byte:
  the clamp only turns a negative zero into a positive one.
\<close>

lemma clamp_not_negative:
  assumes "\<not> js_less q (Fin 0)"
  shows "Math_max (Fin 0) (Math_min q (Fin 1)) = Math_min q (Fin 1)
         \<or> (Math_min q (Fin 1) = NZero \<and> Math_max (Fin 0) (Math_min q (Fin 1)) = Fin 0)"
  using assms by (cases q) (auto simp add: Math_min_def Math_max_def js_less_def)

lemma code_pixel_eq_spec:
  assumes "isNaN a \<or> \<not> js_less (js_div (ToNumber a) m) (Fin 0)"
  shows "code_pixel a m = spec_pixel a m"
proof (cases "isNaN a")
  case True
  then have "ToNumber a = NaN" by (cases "ToNumber a") (simp_all add: isNaN_def)
  then show ?thesis
    using True
    by (simp add: code_pixel_def spec_pixel_def clamp01_def Math_min_def Math_max_def
        js_div_def js_mul_def)
next
  case False
  let ?r = "Math_min (js_div (ToNumber a) m) (Fin 1)"
  have "\<not> js_less (js_div (ToNumber a) m) (Fin 0)" using False assms by simp
  from clamp_not_negative[OF this]
  have "ToUint8 (Math_round (js_mul (Math_max (Fin 0) ?r) (Fin 255)))
        = ToUint8 (Math_round (js_mul ?r (Fin 255)))"
    by (auto simp add: js_mul_def double_of_zero signed_zero_def js_trunc_def)
  then show ?thesis using False by (simp add: code_pixel_def spec_pixel_def clamp01_def)
qed

lemma minus_one: "js_div (Fin 45) (Fin (- 45)) = Fin (- 1)"
  using double_of_nat[of 1 True] by (simp add: js_div_def)

lemma minus_255: "js_mul (Fin (- 1)) (Fin 255) = Fin (- 255)"
  using double_of_nat[of 255 True] by (simp add: js_mul_def)

lemma plus_one: "js_div (Fin 45) (Fin 45) = Fin 1"
  using double_of_nat[of 1 False] by (simp add: js_div_def)

lemma plus_255: "js_mul (Fin 1) (Fin 255) = Fin 255"
  using double_of_nat[of 255 False] by (simp add: js_mul_def)

lemma zero_255: "js_mul (Fin 0) (Fin 255) = Fin 0"
  by (simp add: js_mul_def double_of_zero signed_zero_def)

text \<open>With \<open>?maxAngle=-0\<close> the quotient of a positive angle is minus infinity and the byte 0.\<close>

lemma code_pixel_negative_zero: "code_pixel (Number (Fin 45)) NZero = 0"
  by (simp add: code_pixel_def isNaN_def js_div_def signed_inf_def Math_min_def js_less_def
      js_mul_def)

text \<open>
  Rounding matters: the double nearest to \<open>0.5 / 255\<close> times 255 rounds to exactly one
  half, which \<open>Math.round\<close> takes to 1.
\<close>

lemma nearest_510th: "double (1 / 510) = Fin (4521260802379792 / 2 ^ 61)"
proof -
  have k: "round_half_even ((1 / 510) / 2 powi (- 9 - 52)) = 4521260802379792"
    by (rule round_half_even_below) (simp_all add: power_int_def power_divide)
  have "double_mag (1 / 510) = of_int 4521260802379792 * 2 powi (- 9 - 52)"
    by (rule double_mag_eval[OF _ _ _ k]) (simp_all add: power_int_def power_divide)
  then have m: "double_mag (1 / 510) = 4521260802379792 / 2 ^ 61"
    by (simp add: power_int_def power_divide)
  show ?thesis
    using m by (simp add: double_def double_of_def)
qed

lemma quotient_by_one:
  "js_div (Fin (4521260802379792 / 2 ^ 61)) (Fin 1) = Fin (4521260802379792 / 2 ^ 61)"
proof -
  have k: "round_half_even ((4521260802379792 / 2 ^ 61) / 2 powi (- 9 - 52)) = 4521260802379792"
    by (rule round_half_even_below) (simp_all add: power_int_def power_divide)
  have "double_mag (4521260802379792 / 2 ^ 61) = of_int 4521260802379792 * 2 powi (- 9 - 52)"
    by (rule double_mag_eval[OF _ _ _ k]) (simp_all add: power_int_def power_divide)
  then have m: "double_mag (4521260802379792 / 2 ^ 61) = 4521260802379792 / 2 ^ 61"
    by (simp add: power_int_def power_divide)
  show ?thesis using m by (simp add: js_div_def double_of_def)
qed

lemma product_rounds_to_half: "js_mul (Fin (4521260802379792 / 2 ^ 61)) (Fin 255) = Fin (1 / 2)"
proof -
  have k: "round_half_even ((4521260802379792 / 2 ^ 61 * 255) / 2 powi (- 2 - 52))
           = 9007199254740991 + 1"
    by (rule round_half_even_above) (simp_all add: power_int_def power_divide)
  have "double_mag (4521260802379792 / 2 ^ 61 * 255)
        = of_int (9007199254740991 + 1) * 2 powi (- 2 - 52)"
    by (rule double_mag_eval[OF _ _ _ k]) (simp_all add: power_int_def power_divide)
  then have m: "double_mag (4521260802379792 / 2 ^ 61 * 255) = 1 / 2"
    by (simp add: power_int_def power_divide)
  show ?thesis
    using m by (simp add: js_mul_def double_of_def)
qed

lemma code_pixel_half: "code_pixel (Number (double (1 / 510))) (Fin 1) = 1"
  using nearest_510th quotient_by_one product_rounds_to_half
  by (simp add: code_pixel_def isNaN_def Math_min_def js_less_def js_trunc_def)

text \<open>
  C2 as stated fails: the code has the upper clamp only (\<open>Math.min(angle / maxAngle, 1)\<close>),
  and a \<open>Uint8Array\<close> stores a negative value modulo 256. With \<open>?maxAngle=-45\<close> an angle
  of 45 degrees is stored as 1, where the claim's clamp gives 0.
\<close>

theorem toImageBuffer_clamp_counterexample:
  "toImageBuffer (constant_tile 1 1 (Fin 45)) (Fin (- 45)) ! 0 = 1
   \<and> spec_pixel (get (constant_tile 1 1 (Fin 45)) 0 0) (Fin (- 45)) = 0"
proof -
  have "toImageBuffer (constant_tile 1 1 (Fin 45)) (Fin (- 45)) ! ((0 * 1 + 0) * 4 + 0)
        = pixel_bytes (constant_tile 1 1 (Fin 45)) (Fin (- 45)) 0 0 0"
    using toImageBuffer_nth[of 0 "constant_tile 1 1 (Fin 45)" 0 0 "Fin (- 45)"]
    by (simp add: constant_tile_def)
  moreover have "pixel_bytes (constant_tile 1 1 (Fin 45)) (Fin (- 45)) 0 0 0 = 1"
    by (simp add: pixel_bytes_def code_pixel_def constant_tile_def isNaN_def minus_one
        Math_min_def js_less_def minus_255 js_trunc_def)
  moreover have "spec_pixel (get (constant_tile 1 1 (Fin 45)) 0 0) (Fin (- 45)) = 0"
    by (simp add: spec_pixel_def clamp01_def constant_tile_def minus_one Math_min_def
        Math_max_def js_less_def zero_255 js_trunc_def)
  ultimately show ?thesis by simp
qed

text \<open>
  C2, amended. \<open>toImageBuffer\<close> returns exactly \<open>width \<sqdot> height \<sqdot> 4\<close> bytes, row-major. For
  the pixel \<open>(x, y)\<close> with angle \<open>a\<close> the R, G and B bytes are 0 when \<open>a\<close> is NaN and otherwise
  \<open>round(min(a / maxAngle, 1) \<sqdot> 255)\<close> stored as a byte, that is modulo 256; the A byte is 0
  when \<open>a\<close> is NaN and 255 otherwise. Whenever \<open>a\<close> is NaN or \<open>a / maxAngle\<close> is not negative,
  the colour bytes equal \<open>round(clamp(a / maxAngle, 0, 1) \<sqdot> 255)\<close>.
\<close>

theorem toImageBuffer_bytes:
  "length (toImageBuffer t maxAngle) = width t * height t * 4
   \<and> (x < width t \<and> y < height t \<longrightarrow>
        toImageBuffer t maxAngle ! ((y * width t + x) * 4)
          = code_pixel (get t (int x) (int y)) maxAngle
      \<and> toImageBuffer t maxAngle ! ((y * width t + x) * 4 + 1)
          = code_pixel (get t (int x) (int y)) maxAngle
      \<and> toImageBuffer t maxAngle ! ((y * width t + x) * 4 + 2)
          = code_pixel (get t (int x) (int y)) maxAngle
      \<and> toImageBuffer t maxAngle ! ((y * width t + x) * 4 + 3)
          = (if isNaN (get t (int x) (int y)) then 0 else 255)
      \<and> (isNaN (get t (int x) (int y))
           \<or> \<not> js_less (js_div (ToNumber (get t (int x) (int y))) maxAngle) (Fin 0)
         \<longrightarrow> code_pixel (get t (int x) (int y)) maxAngle
             = spec_pixel (get t (int x) (int y)) maxAngle))"
proof (intro conjI impI)
  show "length (toImageBuffer t maxAngle) = width t * height t * 4"
    by (rule toImageBuffer_length)
next
  assume "x < width t \<and> y < height t"
  then have x: "x < width t" and y: "y < height t" by simp_all
  show "toImageBuffer t maxAngle ! ((y * width t + x) * 4)
          = code_pixel (get t (int x) (int y)) maxAngle"
    using toImageBuffer_nth[OF x y, of 0 maxAngle] by (simp add: pixel_bytes_def)
  show "toImageBuffer t maxAngle ! ((y * width t + x) * 4 + 1)
          = code_pixel (get t (int x) (int y)) maxAngle"
    using toImageBuffer_nth[OF x y, of 1 maxAngle] by (simp add: pixel_bytes_def)
  show "toImageBuffer t maxAngle ! ((y * width t + x) * 4 + 2)
          = code_pixel (get t (int x) (int y)) maxAngle"
    using toImageBuffer_nth[OF x y, of 2 maxAngle] by (simp add: pixel_bytes_def)
  show "toImageBuffer t maxAngle ! ((y * width t + x) * 4 + 3)
          = (if isNaN (get t (int x) (int y)) then 0 else 255)"
    using toImageBuffer_nth[OF x y, of 3 maxAngle] by (simp add: pixel_bytes_def spec_alpha_def)
next
  assume "x < width t \<and> y < height t"
    and "isNaN (get t (int x) (int y))
         \<or> \<not> js_less (js_div (ToNumber (get t (int x) (int y))) maxAngle) (Fin 0)"
  then show "code_pixel (get t (int x) (int y)) maxAngle
             = spec_pixel (get t (int x) (int y)) maxAngle"
    by (intro code_pixel_eq_spec)
qed

theorem toImageBuffer_bytes_witness:
  "length (toImageBuffer (constant_tile 1 1 (Fin 45)) (Fin 45)) = 4
   \<and> toImageBuffer (constant_tile 1 1 (Fin 45)) (Fin 45) ! 0 = 255
   \<and> toImageBuffer (constant_tile 1 1 (Fin 45)) (Fin 45) ! 3 = 255
   \<and> spec_pixel (Number (Fin 45)) (Fin 45) = 255"
proof -
  have c: "code_pixel (Number (Fin 45)) (Fin 45) = 255"
    by (simp add: code_pixel_def isNaN_def plus_one Math_min_def js_less_def plus_255
        js_trunc_def)
  have n: "\<not> isNaN (Number (Fin 45))" by (simp add: isNaN_def)
  have q: "\<not> js_less (js_div (Fin 45) (Fin 45)) (Fin 0)"
    by (simp add: plus_one js_less_def)
  show ?thesis
    using toImageBuffer_bytes[of "constant_tile 1 1 (Fin 45)" "Fin 45" 0 0] c n q
    by (simp add: constant_tile_def)
qed

subsection \<open>\<open>materialize\<close>\<close>

text \<open>Evaluating \<open>fround\<close> on a value of the normal range, given its exponent.\<close>

lemma fround_real_eval:
  assumes "r \<noteq> 0" "2 powi e \<le> \<bar>r\<bar>" "\<bar>r\<bar> < 2 powi (e + 1)" "- 126 \<le> e"
    and "round_half_even (\<bar>r\<bar> / 2 powi (e - 23)) = m" "m \<noteq> 0"
    and "of_int m * 2 powi (e - 23) < (2 ^ 128 :: real)"
  shows "fround_real r = Fin (sgn r * (of_int m * 2 powi (e - 23)))"
proof -
  have "\<lfloor>log 2 \<bar>r\<bar>\<rfloor> = e" using assms(2,3) by (rule floor_log2_unique)
  then have "max \<lfloor>log 2 \<bar>r\<bar>\<rfloor> (- 126) = e" using assms(4) by simp
  then show ?thesis
    unfolding fround_real_def Let_def using assms(1,5,6,7) by simp
qed

lemma fround_one_plus: "fround (Fin (1 + 1 / 2 ^ 30)) = Fin 1"
proof -
  have "round_half_even (\<bar>1 + 1 / 2 ^ 30\<bar> / 2 powi (0 - 23)) = 8388608"
    by (rule round_half_even_below) (simp_all add: power_int_minus)
  from fround_real_eval[of "1 + 1 / 2 ^ 30" 0, OF _ _ _ _ this]
  show ?thesis by (simp add: power_int_minus)
qed

lemma fround_one: "fround (Fin 1) = Fin 1"
proof -
  have "round_half_even (\<bar>1\<bar> / 2 powi (0 - 23)) = 8388608"
    by (rule round_half_even_below) (simp_all add: power_int_minus)
  from fround_real_eval[of 1 0, OF _ _ _ _ this]
  show ?thesis by (simp add: power_int_minus)
qed

lemma fround_zero: "fround (Fin 0) = Fin 0"
  by (simp add: fround_real_def)

lemma materialize_pixel_idx: "snd (materialize_pixel t y x st) = snd st + 1"
  by (simp add: materialize_pixel_def Let_def)

lemma materialize_pixel_len: "length (fst (materialize_pixel t y x st)) = length (fst st)"
  by (simp add: materialize_pixel_def Let_def)

lemma materialize_pixel_val:
  assumes "c < 1" "snd st + 1 \<le> length (fst st)"
  shows "fst (materialize_pixel t y x st) ! (snd st + c) = stored_value t y x c"
  using assms by (simp add: materialize_pixel_def Let_def stored_value_def)

lemma materialize_pixel_frame:
  assumes "j < snd st"
  shows "fst (materialize_pixel t y x st) ! j = fst st ! j"
  using assms by (simp add: materialize_pixel_def Let_def)

lemma materialize_filled:
  "filled (stored_value t) (width t) 1 (height t * width t)
     (fold (\<lambda>y. fold (materialize_pixel t y) [0..<width t]) [0..<height t]
        (replicate (width t * height t) (Fin 0), 0))
   \<and> length (materialize_data t) = width t * height t * 1"
  unfolding materialize_data_def
  by (rule grid_fill[OF materialize_pixel_idx materialize_pixel_len
        materialize_pixel_val materialize_pixel_frame]) simp_all

lemma materialize_data_length: "length (materialize_data t) = width t * height t"
  using materialize_filled[of t] by simp

lemma materialize_data_nth:
  assumes "q < width t * height t"
  shows "materialize_data t ! q
         = fround (ToNumber (get t (int (q mod width t)) (int (q div width t))))"
  using materialize_filled[of t] assms
  by (simp add: materialize_data_def filled_def mult.commute stored_value_def)

text \<open>The accessor of the materialized tile, at any pair of integers.\<close>

lemma materialize_get:
  "get (materialize t) x y =
     (if 0 \<le> y * int (width t) + x \<and> y * int (width t) + x < int (width t * height t)
      then Number (fround (ToNumber (get t ((y * int (width t) + x) mod int (width t))
                                          ((y * int (width t) + x) div int (width t)))))
      else Undefined)"
proof -
  have "get (materialize t) x y = typed_array_get (materialize_data t) (y * int (width t) + x)"
    by (simp add: materialize_def Let_def)
  moreover have "typed_array_get (materialize_data t) i =
      (if 0 \<le> i \<and> i < int (width t * height t)
         then Number (fround (ToNumber (get t (i mod int (width t)) (i div int (width t)))))
         else Undefined)" for i
  proof (cases "0 \<le> i \<and> i < int (width t * height t)")
    case True
    then have "nat i < width t * height t" by linarith
    from materialize_data_nth[OF this] True show ?thesis
      by (simp add: typed_array_get_def materialize_data_length zmod_int zdiv_int)
  next
    case False
    then show ?thesis by (auto simp add: typed_array_get_def materialize_data_length)
  qed
  ultimately show ?thesis by simp
qed

lemma row_major_in_range:
  fixes x y w h :: int
  assumes "0 \<le> x" "x < w" "0 \<le> y" "y < h"
  shows "0 \<le> y * w + x \<and> y * w + x < w * h"
proof -
  have "y * w + x < (y + 1) * w" using assms(2) by (simp add: algebra_simps)
  also have "\<dots> \<le> h * w" using assms by (intro mult_right_mono) simp_all
  finally show ?thesis using assms by (simp add: mult.commute)
qed

lemma materialize_in_bounds:
  assumes "0 \<le> x" "x < int (width t)" "0 \<le> y" "y < int (height t)"
  shows "get (materialize t) x y = Number (fround (ToNumber (get t x y)))"
proof -
  have r: "0 \<le> y * int (width t) + x \<and> y * int (width t) + x < int (width t) * int (height t)"
    using assms by (rule row_major_in_range)
  have "(y * int (width t) + x) mod int (width t) = x"
    "(y * int (width t) + x) div int (width t) = y"
    using assms(1,2) by simp_all
  then show ?thesis using r by (simp add: materialize_get)
qed

text \<open>
  C4 as stated fails: the dense array is a \<open>Float32Array\<close>, so every stored value is rounded
  to a 32-bit float. The double \<open>1 + 2\<^sup>-\<^sup>3\<^sup>0\<close> comes back as 1.
\<close>

theorem materialize_identical_counterexample:
  "get (materialize (constant_tile 1 1 (Fin (1 + 1 / 2 ^ 30)))) 0 0 = Number (Fin 1)
   \<and> get (materialize (constant_tile 1 1 (Fin (1 + 1 / 2 ^ 30)))) 0 0
       \<noteq> get (constant_tile 1 1 (Fin (1 + 1 / 2 ^ 30))) 0 0"
proof -
  have "get (materialize (constant_tile 1 1 (Fin (1 + 1 / 2 ^ 30)))) 0 0
        = Number (fround (ToNumber (get (constant_tile 1 1 (Fin (1 + 1 / 2 ^ 30))) 0 0)))"
    by (rule materialize_in_bounds) (simp_all add: constant_tile_def)
  also have "\<dots> = Number (Fin 1)"
    using fround_one_plus by (simp add: constant_tile_def)
  finally show ?thesis by (simp add: constant_tile_def)
qed

text \<open>
  C4, amended. At every in-bounds coordinate the materialized tile returns the lazy value
  rounded to the nearest 32-bit float (\<open>Math.fround\<close>); the two are identical whenever the
  lazy value is a number that this rounding leaves unchanged.
\<close>

theorem materialize_fround:
  "0 \<le> x \<and> x < int (width t) \<and> 0 \<le> y \<and> y < int (height t) \<longrightarrow>
     get (materialize t) x y = Number (fround (ToNumber (get t x y)))
     \<and> (get t x y = Number v \<and> fround v = v \<longrightarrow> get (materialize t) x y = get t x y)"
  by (simp add: materialize_in_bounds)

theorem materialize_fround_witness:
  "get (materialize (rows_tile 2 2)) 1 1 = Number (Fin 1)
   \<and> get (materialize (rows_tile 2 2)) 1 1 = get (rows_tile 2 2) 1 1"
  using materialize_fround[of 1 "rows_tile 2 2" 1 "Fin 1"] fround_one
  by (simp add: rows_tile_def)

text \<open>
  C8. The accessor of the materialized tile checks no bounds: at every pair of integers it
  reads the dense array at \<open>y \<sqdot> width + x\<close>, so it answers with a stored pixel whenever that
  index is in the array and with \<open>undefined\<close> otherwise. In particular \<open>get(width, y)\<close> with
  \<open>0 \<le> y < height - 1\<close> is the stored value of pixel \<open>(0, y + 1)\<close>, where a lazy tile built
  by \<open>fromHeightTile\<close> returns NaN.
\<close>

theorem materialize_unchecked:
  "get (materialize t) x y =
     (if 0 \<le> y * int (width t) + x \<and> y * int (width t) + x < int (width t * height t)
      then Number (fround (ToNumber (get t ((y * int (width t) + x) mod int (width t))
                                          ((y * int (width t) + x) div int (width t)))))
      else Undefined)
   \<and> (0 < width t \<and> 0 \<le> y \<and> y < int (height t) - 1 \<longrightarrow>
        get (materialize t) (int (width t)) y = Number (fround (ToNumber (get t 0 (y + 1))))
        \<and> get (materialize t) (int (width t)) y = get (materialize t) 0 (y + 1))
   \<and> get (fromHeightTile M h p) (int (width (fromHeightTile M h p))) y = Number NaN"
proof (intro conjI impI)
  show "get (materialize t) x y =
     (if 0 \<le> y * int (width t) + x \<and> y * int (width t) + x < int (width t * height t)
      then Number (fround (ToNumber (get t ((y * int (width t) + x) mod int (width t))
                                          ((y * int (width t) + x) div int (width t)))))
      else Undefined)"
    by (rule materialize_get)
next
  assume a: "0 < width t \<and> 0 \<le> y \<and> y < int (height t) - 1"
  have e: "get (materialize t) (int (width t)) y = get (materialize t) 0 (y + 1)"
    by (simp add: materialize_def Let_def algebra_simps)
  have "get (materialize t) 0 (y + 1) = Number (fround (ToNumber (get t 0 (y + 1))))"
    by (rule materialize_in_bounds) (use a in simp_all)
  then show "get (materialize t) (int (width t)) y = Number (fround (ToNumber (get t 0 (y + 1))))"
    and "get (materialize t) (int (width t)) y = get (materialize t) 0 (y + 1)"
    using e by simp_all
next
  show "get (fromHeightTile M h p) (int (width (fromHeightTile M h p))) y = Number NaN"
    by (simp add: fromHeightTile_def)
qed

theorem materialize_unchecked_witness:
  "get (materialize (fromHeightTile rounded_math flat (Fin 30))) 2 0 = Number (Fin 0)
   \<and> get (fromHeightTile rounded_math flat (Fin 30)) 2 0 = Number NaN"
proof -
  have "get (fromHeightTile rounded_math flat (Fin 30)) 0 1 = Number (Fin 0)"
    by (rule flat_slope) simp_all
  then show ?thesis
    using materialize_unchecked[where t = "fromHeightTile rounded_math flat (Fin 30)" and x = 2 and y = 0
        and h = flat and p = "Fin 30" and M = rounded_math] fround_zero
    by (simp add: fromHeightTile_def flat_def)
qed

section \<open>Properties of the slope angle source\<close>

subsection \<open>Protocol ids\<close>

lemma protocolPrefix_loop_free: "protocolPrefix_loop used base p i \<notin> set used"
proof (induction used base p i rule: protocolPrefix_loop.induct)
  case (1 used base p i)
  then show ?case by (subst protocolPrefix_loop.simps) simp
qed

text \<open>From a prefix that is taken, the loop stops at the first free suffix.\<close>

lemma protocolPrefix_loop_suffix:
  assumes "p \<in> set used"
  shows "\<exists>k\<ge>i. protocolPrefix_loop used base p i = base @ string_of_nat k
          \<and> (\<forall>j. i \<le> j \<and> j < k \<longrightarrow> base @ string_of_nat j \<in> set used)"
  using assms
proof (induction used base p i rule: protocolPrefix_loop.induct)
  case (1 used base p i)
  have unfold: "protocolPrefix_loop used base p i
                = protocolPrefix_loop used base (base @ string_of_nat i) (i + 1)"
    using "1.prems" by (subst protocolPrefix_loop.simps) simp
  show ?case
  proof (cases "base @ string_of_nat i \<in> set used")
    case True
    from "1.IH"[OF "1.prems" True] obtain k where k: "i + 1 \<le> k"
      "protocolPrefix_loop used base (base @ string_of_nat i) (i + 1) = base @ string_of_nat k"
      "\<forall>j. i + 1 \<le> j \<and> j < k \<longrightarrow> base @ string_of_nat j \<in> set used"
      by blast
    have "\<forall>j. i \<le> j \<and> j < k \<longrightarrow> base @ string_of_nat j \<in> set used"
    proof (intro allI impI)
      fix j assume "i \<le> j \<and> j < k"
      then show "base @ string_of_nat j \<in> set used"
        using True k(3) by (cases "j = i") auto
    qed
    then show ?thesis using k(1,2) unfold by (intro exI[of _ k]) simp
  next
    case False
    then have "protocolPrefix_loop used base (base @ string_of_nat i) (i + 1)
               = base @ string_of_nat i"
      by (subst protocolPrefix_loop.simps) simp
    then show ?thesis using unfold by (intro exI[of _ i]) auto
  qed
qed

lemma new_SlopeAngleSource_id:
  "slopeProtocolId (fst (new_SlopeAngleSource dm base used))
     = protocolPrefix_loop used base base 1 @ ''-slope''"
  by (simp add: new_SlopeAngleSource_def Let_def)

lemma new_SlopeAngleSource_used:
  "snd (new_SlopeAngleSource dm base used) = used @ [protocolPrefix_loop used base base 1]"
  using protocolPrefix_loop_free[of used base base 1]
  by (simp add: new_SlopeAngleSource_def Let_def Set_add_def)

lemma base_taken: "base \<in> set (snd (new_SlopeAngleSource dm base used))"
proof (cases "base \<in> set used")
  case True
  then show ?thesis by (simp add: new_SlopeAngleSource_used)
next
  case False
  then have "protocolPrefix_loop used base base 1 = base"
    by (subst protocolPrefix_loop.simps) simp
  then show ?thesis by (simp add: new_SlopeAngleSource_used)
qed

text \<open>Every id handed out by a run of constructions ends a prefix that was free before it.\<close>

lemma construct_all_ids:
  "set (map slopeProtocolId (fst (construct_all dm bases used)))
     \<subseteq> (\<lambda>p. p @ ''-slope'') ` (set (snd (construct_all dm bases used)) - set used)
   \<and> set used \<subseteq> set (snd (construct_all dm bases used))"
proof (induction bases arbitrary: used)
  case Nil
  then show ?case by simp
next
  case (Cons base bases)
  let ?p = "protocolPrefix_loop used base base 1"
  let ?u1 = "used @ [?p]"
  have step: "construct_all dm (base # bases) used
        = (fst (new_SlopeAngleSource dm base used) # fst (construct_all dm bases ?u1),
           snd (construct_all dm bases ?u1))"
    using new_SlopeAngleSource_used[of dm base used]
    by (simp add: split_beta Let_def)
  have IH: "set (map slopeProtocolId (fst (construct_all dm bases ?u1)))
     \<subseteq> (\<lambda>p. p @ ''-slope'') ` (set (snd (construct_all dm bases ?u1)) - set ?u1)"
    and mono: "set ?u1 \<subseteq> set (snd (construct_all dm bases ?u1))"
    using Cons.IH[of ?u1] by simp_all
  have free: "?p \<notin> set used" by (rule protocolPrefix_loop_free)
  have "?p \<in> set (snd (construct_all dm bases ?u1)) - set used" using mono free by auto
  then show ?case
    using IH mono unfolding step by (auto simp add: new_SlopeAngleSource_id)
qed

lemma construct_all_distinct: "distinct (map slopeProtocolId (fst (construct_all dm bases used)))"
proof (induction bases arbitrary: used)
  case Nil
  then show ?case by simp
next
  case (Cons base bases)
  let ?p = "protocolPrefix_loop used base base 1"
  let ?u1 = "used @ [?p]"
  have step: "construct_all dm (base # bases) used
        = (fst (new_SlopeAngleSource dm base used) # fst (construct_all dm bases ?u1),
           snd (construct_all dm bases ?u1))"
    using new_SlopeAngleSource_used[of dm base used]
    by (simp add: split_beta Let_def)
  have "?p @ ''-slope'' \<notin> set (map slopeProtocolId (fst (construct_all dm bases ?u1)))"
    using construct_all_ids[of dm bases ?u1] by auto
  then show ?case
    unfolding step using Cons.IH[of ?u1] by (simp add: new_SlopeAngleSource_id)
qed

text \<open>
  C7. Any run of constructions hands out pairwise distinct \<open>slopeProtocolId\<close>s, whatever
  the base ids and whatever was registered before; in particular two constructions with
  the same base id get distinct ids. The second of two such constructions in a row gets
  the base id followed by the first integer suffix, counting from 1, that is free.
\<close>

theorem slopeProtocolId_distinct:
  "distinct (map slopeProtocolId (fst (construct_all dm bases used)))
   \<and> slopeProtocolId (fst (new_SlopeAngleSource dm base used))
       \<noteq> slopeProtocolId (fst (new_SlopeAngleSource dm' base (snd (new_SlopeAngleSource dm base used))))
   \<and> (\<exists>k\<ge>1.
         slopeProtocolId (fst (new_SlopeAngleSource dm' base (snd (new_SlopeAngleSource dm base used))))
           = base @ string_of_nat k @ ''-slope''
         \<and> base @ string_of_nat k \<notin> set (snd (new_SlopeAngleSource dm base used))
         \<and> (\<forall>j. 1 \<le> j \<and> j < k
               \<longrightarrow> base @ string_of_nat j \<in> set (snd (new_SlopeAngleSource dm base used))))"
proof (intro conjI)
  show "distinct (map slopeProtocolId (fst (construct_all dm bases used)))"
    by (rule construct_all_distinct)
next
  let ?u1 = "snd (new_SlopeAngleSource dm base used)"
  have "protocolPrefix_loop used base base 1 \<in> set ?u1"
    by (simp add: new_SlopeAngleSource_used)
  moreover have "protocolPrefix_loop ?u1 base base 1 \<notin> set ?u1"
    by (rule protocolPrefix_loop_free)
  ultimately have "protocolPrefix_loop used base base 1 \<noteq> protocolPrefix_loop ?u1 base base 1"
    by metis
  then show "slopeProtocolId (fst (new_SlopeAngleSource dm base used))
       \<noteq> slopeProtocolId (fst (new_SlopeAngleSource dm' base ?u1))"
    by (simp add: new_SlopeAngleSource_id)
next
  let ?u1 = "snd (new_SlopeAngleSource dm base used)"
  from protocolPrefix_loop_suffix[OF base_taken, of 1 dm base used base]
  obtain k where k: "1 \<le> k" "protocolPrefix_loop ?u1 base base 1 = base @ string_of_nat k"
    "\<forall>j. 1 \<le> j \<and> j < k \<longrightarrow> base @ string_of_nat j \<in> set ?u1"
    by blast
  have "base @ string_of_nat k \<notin> set ?u1"
    using protocolPrefix_loop_free[of ?u1 base base 1] k(2) by simp
  then show "\<exists>k\<ge>1.
         slopeProtocolId (fst (new_SlopeAngleSource dm' base ?u1)) = base @ string_of_nat k @ ''-slope''
         \<and> base @ string_of_nat k \<notin> set ?u1
         \<and> (\<forall>j. 1 \<le> j \<and> j < k \<longrightarrow> base @ string_of_nat j \<in> set ?u1)"
    using k by (intro exI[of _ k]) (simp add: new_SlopeAngleSource_id)
qed

lemma digit_char_1: "digit_char (Suc 0) = CHR ''1''"
  unfolding digit_char_def by code_simp

lemma string_of_nat_1: "string_of_nat (Suc 0) = ''1''"
  by (subst string_of_nat.simps) (simp add: digit_char_1)

lemma first_slope: "protocolPrefix_loop [] ''slope'' ''slope'' (Suc 0) = ''slope''"
  by (subst protocolPrefix_loop.simps) simp

lemma second_slope: "protocolPrefix_loop [''slope''] ''slope'' ''slope'' (Suc 0) = ''slope1''"
proof -
  have "protocolPrefix_loop [''slope''] ''slope'' ''slope'' (Suc 0)
        = protocolPrefix_loop [''slope''] ''slope'' (''slope'' @ string_of_nat (Suc 0)) (Suc 0 + 1)"
    by (subst protocolPrefix_loop.simps) simp
  also have "\<dots> = ''slope1''"
    by (subst protocolPrefix_loop.simps) (simp add: string_of_nat_1)
  finally show ?thesis .
qed

theorem slopeProtocolId_distinct_witness:
  "map slopeProtocolId (fst (construct_all flat_manager [''slope'', ''slope''] []))
     = [''slope-slope'', ''slope1-slope'']
   \<and> distinct (map slopeProtocolId (fst (construct_all flat_manager [''slope'', ''slope''] [])))"
proof -
  have "map slopeProtocolId (fst (construct_all flat_manager [''slope'', ''slope''] []))
        = [''slope-slope'', ''slope1-slope'']"
    by (simp add: split_beta Let_def new_SlopeAngleSource_id new_SlopeAngleSource_used
        first_slope second_slope)
  then show ?thesis
    using slopeProtocolId_distinct[of flat_manager "[''slope'', ''slope'']" "[]"] by simp
qed

subsection \<open>The nine fetches and the centre tile\<close>

lemma settle_slot:
  "(case (case p of Inr v \<Rightarrow> fulfilled v | Inl reason \<Rightarrow> rejected reason) of
      fulfilled v \<Rightarrow> Some (fromRawDem v)
    | rejected reason \<Rightarrow> None)
   = (case p of Inr v \<Rightarrow> Some (fromRawDem v) | Inl reason \<Rightarrow> None)"
  by (cases p) simp_all

text \<open>The \<open>try\<close> block, with its nine calls and nine slots written out.\<close>

lemma try_unfold:
  "slopeProtocolV4_try M src fromRawDem now url z x y maxAngle pixelSize =
     (case combineNeighbors (nine_slots (demManager src) fromRawDem z x y) of
        None \<Rightarrow>
          \<lparr>calls = nine_calls z x y,
           timing_record = Errored url,
           outcome = Inl (Error ''Center tile is required but was not available'')\<rparr>
      | Some t \<Rightarrow>
          \<lparr>calls = nine_calls z x y,
           timing_record = Finished url,
           outcome = Inr \<lparr>data = toImageBuffer (fromHeightTile M t pixelSize) maxAngle,
                          cacheControl = Some ''public, max-age=3600'',
                          expires = Some (now + 3600 * 1000)\<rparr>\<rparr>)"
  by (simp add: slopeProtocolV4_try_def fetchAndParseTile_def allSettled_def settle_slot
      nine_slots_def nine_calls_def slot_def Let_def split: option.split)

text \<open>Slot 4 holds the outcome of the centre fetch.\<close>

lemma center_slot:
  "grid_at (nine_slots dm fromRawDem z x y) 4 = slot dm fromRawDem z x y"
  by (simp add: grid_at_def nine_slots_def)

lemma combineNeighbors_None: "grid_at hs 4 = None \<Longrightarrow> combineNeighbors hs = None"
  by (simp add: combineNeighbors_def)

lemma combineNeighbors_Some:
  "grid_at hs 4 = Some c \<Longrightarrow>
     \<exists>t. combineNeighbors hs = Some t \<and> width t = width c \<and> height t = height c"
  by (simp add: combineNeighbors_def)

lemma try_center_rejected:
  assumes "demManager src z x y = Inl reason"
  shows "slopeProtocolV4_try M src fromRawDem now url z x y maxAngle pixelSize
         = \<lparr>calls = nine_calls z x y,
            timing_record = Errored url,
            outcome = Inl (Error ''Center tile is required but was not available'')\<rparr>"
proof -
  have "grid_at (nine_slots (demManager src) fromRawDem z x y) 4 = None"
    using assms by (simp add: center_slot slot_def)
  then have "combineNeighbors (nine_slots (demManager src) fromRawDem z x y) = None"
    by (rule combineNeighbors_None)
  then show ?thesis by (simp add: try_unfold)
qed

lemma try_center_fulfilled:
  assumes "demManager src z x y = Inr v"
  shows "\<exists>t. combineNeighbors (nine_slots (demManager src) fromRawDem z x y) = Some t
           \<and> width t = width (fromRawDem v) \<and> height t = height (fromRawDem v)
           \<and> slopeProtocolV4_try M src fromRawDem now url z x y maxAngle pixelSize
             = \<lparr>calls = nine_calls z x y,
                timing_record = Finished url,
                outcome = Inr \<lparr>data = toImageBuffer (fromHeightTile M t pixelSize) maxAngle,
                               cacheControl = Some ''public, max-age=3600'',
                               expires = Some (now + 3600 * 1000)\<rparr>\<rparr>"
proof -
  have "grid_at (nine_slots (demManager src) fromRawDem z x y) 4 = Some (fromRawDem v)"
    using assms by (simp add: center_slot slot_def)
  from combineNeighbors_Some[OF this] obtain t where
    t: "combineNeighbors (nine_slots (demManager src) fromRawDem z x y) = Some t"
      "width t = width (fromRawDem v)" "height t = height (fromRawDem v)"
    by blast
  then show ?thesis by (simp add: try_unfold)
qed

lemma run_fields:
  "fetches (slopeProtocolV4 M src fromRawDem now url z x y maxAngle pixelSize)
     = calls (slopeProtocolV4_try M src fromRawDem now url z x y maxAngle pixelSize)"
  "timing (slopeProtocolV4 M src fromRawDem now url z x y maxAngle pixelSize)
     = timing_record (slopeProtocolV4_try M src fromRawDem now url z x y maxAngle pixelSize)"
  "settled (slopeProtocolV4 M src fromRawDem now url z x y maxAngle pixelSize)
     = (case forEach_timing (timingCallbacks src)
               (timing_record (slopeProtocolV4_try M src fromRawDem now url z x y maxAngle pixelSize)) of
          Some thrown \<Rightarrow> Inl thrown
        | None \<Rightarrow> outcome (slopeProtocolV4_try M src fromRawDem now url z x y maxAngle pixelSize))"
  by (simp_all add: slopeProtocolV4_def Let_def)

subsection \<open>Timing callbacks\<close>

lemma forEach_timing_None: "(forEach_timing cbs tm = None) = (\<forall>cb \<in> set cbs. cb tm = None)"
  by (induction cbs) (auto split: option.splits)

text \<open>The first callback that throws ends the loop with what it throws.\<close>

lemma forEach_timing_first:
  assumes "cbs = pre @ cb # post" "\<forall>c \<in> set pre. c tm = None" "cb tm = Some thrown"
  shows "forEach_timing cbs tm = Some thrown"
  using assms by (induction pre arbitrary: cbs) auto

lemma example_source_fields:
  "demManager (example_source dm) = dm" "timingCallbacks (example_source dm) = []"
  by (simp_all add: example_source_def new_SlopeAngleSource_def Let_def)

lemma nine_minus_one: "js_sub (Fin 10) (Fin 1) = Fin 9"
  using double_nat[of 9] by (simp add: js_sub_def js_add_def)

text \<open>
  C3 as stated fails: when the centre fetch rejects, its error is not what the caller
  gets. The slot turns into an absent grid like any other failed slot, and the request
  rejects with a new error of its own.
\<close>

theorem slopeProtocolV4_center_error_counterexample:
  "demManager (example_source failing_manager) (Fin 5) (Fin 10) (Fin 10) = Inl (Error ''404'')
   \<and> settled (slopeProtocolV4 rounded_math (example_source failing_manager) flat_dem 0
        ''slope-slope://5/10/10'' (Fin 5) (Fin 10) (Fin 10) (Fin 45) (Fin 30))
       = Inl (Error ''Center tile is required but was not available'')
   \<and> settled (slopeProtocolV4 rounded_math (example_source failing_manager) flat_dem 0
        ''slope-slope://5/10/10'' (Fin 5) (Fin 10) (Fin 10) (Fin 45) (Fin 30))
       \<noteq> Inl (Error ''404'')"
proof -
  have c: "demManager (example_source failing_manager) (Fin 5) (Fin 10) (Fin 10) = Inl (Error ''404'')"
    by (simp add: example_source_fields failing_manager_def)
  show ?thesis
    using c by (simp add: run_fields try_center_rejected[OF c] example_source_fields)
qed

text \<open>
  C3, amended. Every invocation issues all nine fetches, for the tiles \<open>(x-1..x+1,
  y-1..y+1)\<close> at zoom \<open>z\<close> in the order nw, n, ne, w, c, e, sw, s, se, whatever their
  outcomes. If the centre fetch rejects, the request rejects: with the error
  \<open>Center tile is required but was not available\<close> (not the error of the fetch) when no
  timing callback throws, and with what the first throwing callback throws otherwise. If
  the centre fetch is fulfilled, every fulfilled slot gives its grid and every rejected
  slot counts as an absent grid, the nine slots combine into a tile of the centre's
  dimensions and the request returns the encoded buffer of that tile, of
  \<open>width \<sqdot> height \<sqdot> 4\<close> bytes, when no timing callback throws; when one throws, the request
  rejects with what the first throwing callback throws.
\<close>

theorem slopeProtocolV4_fetch_failures:
  "let west = js_sub x (Fin 1); east = js_add x (Fin 1);
       north = js_sub y (Fin 1); south = js_add y (Fin 1);
       grid = (\<lambda>x' y'. case demManager src z x' y' of
                           Inr v \<Rightarrow> Some (fromRawDem v)
                         | Inl reason \<Rightarrow> None);
       grids = [grid west north, grid x north, grid east north,
                grid west y, grid x y, grid east y,
                grid west south, grid x south, grid east south];
       run = slopeProtocolV4 M src fromRawDem now url z x y maxAngle pixelSize
   in fetches run = [(z, west, north), (z, x, north), (z, east, north),
                     (z, west, y), (z, x, y), (z, east, y),
                     (z, west, south), (z, x, south), (z, east, south)]
      \<and> (\<forall>reason. demManager src z x y = Inl reason \<longrightarrow>
            (\<exists>e'. settled run = Inl e')
            \<and> ((\<forall>cb \<in> set (timingCallbacks src). cb (Errored url) = None) \<longrightarrow>
                 settled run = Inl (Error ''Center tile is required but was not available''))
            \<and> (\<forall>pre cb post thrown.
                  timingCallbacks src = pre @ cb # post
                  \<and> (\<forall>c \<in> set pre. c (Errored url) = None)
                  \<and> cb (Errored url) = Some thrown \<longrightarrow>
                  settled run = Inl thrown))
      \<and> (\<forall>v. demManager src z x y = Inr v \<longrightarrow>
            (\<exists>t. combineNeighbors grids = Some t
               \<and> width t = width (fromRawDem v) \<and> height t = height (fromRawDem v)
               \<and> length (toImageBuffer (fromHeightTile M t pixelSize) maxAngle)
                   = width (fromRawDem v) * height (fromRawDem v) * 4
               \<and> ((\<forall>cb \<in> set (timingCallbacks src). cb (Finished url) = None) \<longrightarrow>
                    settled run
                      = Inr \<lparr>data = toImageBuffer (fromHeightTile M t pixelSize) maxAngle,
                             cacheControl = Some ''public, max-age=3600'',
                             expires = Some (now + 3600 * 1000)\<rparr>)
               \<and> (\<forall>pre cb post thrown.
                     timingCallbacks src = pre @ cb # post
                     \<and> (\<forall>c \<in> set pre. c (Finished url) = None)
                     \<and> cb (Finished url) = Some thrown \<longrightarrow>
                     settled run = Inl thrown)))"
proof -
  let ?run = "slopeProtocolV4 M src fromRawDem now url z x y maxAngle pixelSize"
  let ?body = "slopeProtocolV4_try M src fromRawDem now url z x y maxAngle pixelSize"
  have calls: "calls ?body = nine_calls z x y"
    by (simp add: try_unfold split: option.split)
  have f: "fetches ?run = nine_calls z x y"
    by (simp add: run_fields calls)
  have rej: "(\<exists>e'. settled ?run = Inl e')
            \<and> ((\<forall>cb \<in> set (timingCallbacks src). cb (Errored url) = None) \<longrightarrow>
                 settled ?run = Inl (Error ''Center tile is required but was not available''))
            \<and> (\<forall>pre cb post thrown.
                  timingCallbacks src = pre @ cb # post
                  \<and> (\<forall>c \<in> set pre. c (Errored url) = None)
                  \<and> cb (Errored url) = Some thrown \<longrightarrow>
                  settled ?run = Inl thrown)"
    if c: "demManager src z x y = Inl reason" for reason
  proof (intro conjI allI impI)
    show "\<exists>e'. settled ?run = Inl e'"
      by (simp add: run_fields try_center_rejected[OF c] split: option.split)
  next
    assume "\<forall>cb \<in> set (timingCallbacks src). cb (Errored url) = None"
    then have "forEach_timing (timingCallbacks src) (Errored url) = None"
      by (simp add: forEach_timing_None)
    then show "settled ?run = Inl (Error ''Center tile is required but was not available'')"
      by (simp add: run_fields try_center_rejected[OF c])
  next
    fix pre cb post thrown
    assume "timingCallbacks src = pre @ cb # post
                  \<and> (\<forall>c \<in> set pre. c (Errored url) = None)
                  \<and> cb (Errored url) = Some thrown"
    then have "forEach_timing (timingCallbacks src) (Errored url) = Some thrown"
      using forEach_timing_first[of "timingCallbacks src" pre cb post "Errored url" thrown]
      by blast
    then show "settled ?run = Inl thrown"
      by (simp add: run_fields try_center_rejected[OF c])
  qed
  have ful: "\<exists>t. combineNeighbors (nine_slots (demManager src) fromRawDem z x y) = Some t
               \<and> width t = width (fromRawDem v) \<and> height t = height (fromRawDem v)
               \<and> length (toImageBuffer (fromHeightTile M t pixelSize) maxAngle)
                   = width (fromRawDem v) * height (fromRawDem v) * 4
               \<and> ((\<forall>cb \<in> set (timingCallbacks src). cb (Finished url) = None) \<longrightarrow>
                    settled ?run
                      = Inr \<lparr>data = toImageBuffer (fromHeightTile M t pixelSize) maxAngle,
                             cacheControl = Some ''public, max-age=3600'',
                             expires = Some (now + 3600 * 1000)\<rparr>)
               \<and> (\<forall>pre cb post thrown.
                     timingCallbacks src = pre @ cb # post
                     \<and> (\<forall>c \<in> set pre. c (Finished url) = None)
                     \<and> cb (Finished url) = Some thrown \<longrightarrow>
                     settled ?run = Inl thrown)"
    if c: "demManager src z x y = Inr v" for v
  proof -
    from try_center_fulfilled[OF c, of fromRawDem M now url maxAngle pixelSize]
    obtain t where
      t: "combineNeighbors (nine_slots (demManager src) fromRawDem z x y) = Some t"
        "width t = width (fromRawDem v)" "height t = height (fromRawDem v)"
        "?body = \<lparr>calls = nine_calls z x y,
                timing_record = Finished url,
                outcome = Inr \<lparr>data = toImageBuffer (fromHeightTile M t pixelSize) maxAngle,
                               cacheControl = Some ''public, max-age=3600'',
                               expires = Some (now + 3600 * 1000)\<rparr>\<rparr>"
      by blast
    have len: "length (toImageBuffer (fromHeightTile M t pixelSize) maxAngle)
                   = width (fromRawDem v) * height (fromRawDem v) * 4"
      using t(2,3) by (simp add: toImageBuffer_length fromHeightTile_def)
    have quiet: "settled ?run
                      = Inr \<lparr>data = toImageBuffer (fromHeightTile M t pixelSize) maxAngle,
                             cacheControl = Some ''public, max-age=3600'',
                             expires = Some (now + 3600 * 1000)\<rparr>"
      if "\<forall>cb \<in> set (timingCallbacks src). cb (Finished url) = None"
    proof -
      have "forEach_timing (timingCallbacks src) (Finished url) = None"
        using that by (simp add: forEach_timing_None)
      then show ?thesis by (simp add: run_fields t(4))
    qed
    have loud: "settled ?run = Inl thrown"
      if "timingCallbacks src = pre @ cb # post
                     \<and> (\<forall>c \<in> set pre. c (Finished url) = None)
                     \<and> cb (Finished url) = Some thrown" for pre cb post thrown
    proof -
      have "forEach_timing (timingCallbacks src) (Finished url) = Some thrown"
        using that
          forEach_timing_first[of "timingCallbacks src" pre cb post "Finished url" thrown]
        by blast
      then show ?thesis by (simp add: run_fields t(4))
    qed
    show ?thesis
      using t(1,2,3) len quiet loud by (intro exI[of _ t]) blast
  qed
  note f' = f[unfolded nine_calls_def]
  note ful' = ful[unfolded nine_slots_def slot_def]
  show ?thesis
    unfolding Let_def
  proof (intro conjI allI impI)
    show "fetches ?run = [(z, js_sub x (Fin 1), js_sub y (Fin 1)), (z, x, js_sub y (Fin 1)),
                          (z, js_add x (Fin 1), js_sub y (Fin 1)),
                          (z, js_sub x (Fin 1), y), (z, x, y), (z, js_add x (Fin 1), y),
                          (z, js_sub x (Fin 1), js_add y (Fin 1)), (z, x, js_add y (Fin 1)),
                          (z, js_add x (Fin 1), js_add y (Fin 1))]"
      by (rule f')
  next
    fix reason assume "demManager src z x y = Inl reason"
    from rej[OF this] show "\<exists>e'. settled ?run = Inl e'" by blast
  next
    fix reason
    assume "demManager src z x y = Inl reason"
      and "\<forall>cb \<in> set (timingCallbacks src). cb (Errored url) = None"
    with rej show "settled ?run = Inl (Error ''Center tile is required but was not available'')"
      by blast
  next
    fix reason pre cb post thrown
    assume "demManager src z x y = Inl reason"
      and "timingCallbacks src = pre @ cb # post
                  \<and> (\<forall>c \<in> set pre. c (Errored url) = None)
                  \<and> cb (Errored url) = Some thrown"
    with rej show "settled ?run = Inl thrown" by blast
  next
    fix v assume "demManager src z x y = Inr v"
    from ful'[OF this] show "\<exists>t. combineNeighbors
           [case demManager src z (js_sub x (Fin 1)) (js_sub y (Fin 1)) of
              Inr v \<Rightarrow> Some (fromRawDem v) | Inl reason \<Rightarrow> None,
            case demManager src z x (js_sub y (Fin 1)) of
              Inr v \<Rightarrow> Some (fromRawDem v) | Inl reason \<Rightarrow> None,
            case demManager src z (js_add x (Fin 1)) (js_sub y (Fin 1)) of
              Inr v \<Rightarrow> Some (fromRawDem v) | Inl reason \<Rightarrow> None,
            case demManager src z (js_sub x (Fin 1)) y of
              Inr v \<Rightarrow> Some (fromRawDem v) | Inl reason \<Rightarrow> None,
            case demManager src z x y of
              Inr v \<Rightarrow> Some (fromRawDem v) | Inl reason \<Rightarrow> None,
            case demManager src z (js_add x (Fin 1)) y of
              Inr v \<Rightarrow> Some (fromRawDem v) | Inl reason \<Rightarrow> None,
            case demManager src z (js_sub x (Fin 1)) (js_add y (Fin 1)) of
              Inr v \<Rightarrow> Some (fromRawDem v) | Inl reason \<Rightarrow> None,
            case demManager src z x (js_add y (Fin 1)) of
              Inr v \<Rightarrow> Some (fromRawDem v) | Inl reason \<Rightarrow> None,
            case demManager src z (js_add x (Fin 1)) (js_add y (Fin 1)) of
              Inr v \<Rightarrow> Some (fromRawDem v) | Inl reason \<Rightarrow> None] = Some t
         \<and> width t = width (fromRawDem v) \<and> height t = height (fromRawDem v)
         \<and> length (toImageBuffer (fromHeightTile M t pixelSize) maxAngle)
             = width (fromRawDem v) * height (fromRawDem v) * 4
         \<and> ((\<forall>cb \<in> set (timingCallbacks src). cb (Finished url) = None) \<longrightarrow>
              settled ?run
                = Inr \<lparr>data = toImageBuffer (fromHeightTile M t pixelSize) maxAngle,
                       cacheControl = Some ''public, max-age=3600'',
                       expires = Some (now + 3600 * 1000)\<rparr>)
         \<and> (\<forall>pre cb post thrown.
               timingCallbacks src = pre @ cb # post
               \<and> (\<forall>c \<in> set pre. c (Finished url) = None)
               \<and> cb (Finished url) = Some thrown \<longrightarrow>
               settled ?run = Inl thrown)" .
  qed
qed

theorem slopeProtocolV4_fetch_failures_witness:
  "demManager (example_source no_west_manager) (Fin 5) (js_sub (Fin 10) (Fin 1)) (Fin 10)
     = Inl (Error ''404'')
   \<and> (\<exists>t. settled (slopeProtocolV4 rounded_math (example_source no_west_manager) flat_dem 0
              ''slope-slope://5/10/10'' (Fin 5) (Fin 10) (Fin 10) (Fin 45) (Fin 30))
            = Inr \<lparr>data = toImageBuffer (fromHeightTile rounded_math t (Fin 30)) (Fin 45),
                   cacheControl = Some ''public, max-age=3600'',
                   expires = Some 3600000\<rparr>
          \<and> length (toImageBuffer (fromHeightTile rounded_math t (Fin 30)) (Fin 45)) = 4)
   \<and> settled (slopeProtocolV4 rounded_math (example_source no_west_manager) flat_dem 0
        ''slope-slope://5/9/10'' (Fin 5) (Fin 9) (Fin 10) (Fin 45) (Fin 30))
       = Inl (Error ''Center tile is required but was not available'')"
proof -
  have w: "demManager (example_source no_west_manager) (Fin 5) (js_sub (Fin 10) (Fin 1)) (Fin 10)
           = Inl (Error ''404'')"
    by (simp add: example_source_fields no_west_manager_def nine_minus_one)
  have w9: "demManager (example_source no_west_manager) (Fin 5) (Fin 9) (Fin 10)
           = Inl (Error ''404'')"
    by (simp add: example_source_fields no_west_manager_def)
  have c: "demManager (example_source no_west_manager) (Fin 5) (Fin 10) (Fin 10) = Inr ()"
    by (simp add: example_source_fields no_west_manager_def)
  have n: "timingCallbacks (example_source no_west_manager) = []"
    by (simp add: example_source_fields)
  have "\<exists>t. settled (slopeProtocolV4 rounded_math (example_source no_west_manager) flat_dem 0
              ''slope-slope://5/10/10'' (Fin 5) (Fin 10) (Fin 10) (Fin 45) (Fin 30))
            = Inr \<lparr>data = toImageBuffer (fromHeightTile rounded_math t (Fin 30)) (Fin 45),
                   cacheControl = Some ''public, max-age=3600'',
                   expires = Some 3600000\<rparr>
          \<and> length (toImageBuffer (fromHeightTile rounded_math t (Fin 30)) (Fin 45)) = 4"
    using slopeProtocolV4_fetch_failures[where x = "Fin 10" and y = "Fin 10" and z = "Fin 5"
        and src = "example_source no_west_manager" and fromRawDem = flat_dem
        and M = rounded_math and now = 0 and url = "''slope-slope://5/10/10''"
        and maxAngle = "Fin 45" and pixelSize = "Fin 30"] c n
    by (auto simp add: Let_def flat_dem_def)
  moreover have "settled (slopeProtocolV4 rounded_math (example_source no_west_manager) flat_dem 0
        ''slope-slope://5/9/10'' (Fin 5) (Fin 9) (Fin 10) (Fin 45) (Fin 30))
       = Inl (Error ''Center tile is required but was not available'')"
    using slopeProtocolV4_fetch_failures[where x = "Fin 9" and y = "Fin 10" and z = "Fin 5"
        and src = "example_source no_west_manager" and fromRawDem = flat_dem
        and M = rounded_math and now = 0 and url = "''slope-slope://5/9/10''"
        and maxAngle = "Fin 45" and pixelSize = "Fin 30"] w9 n
    by (simp add: Let_def)
  ultimately show ?thesis using w by simp
qed

text \<open>
  C6 as stated fails: the callbacks run in the \<open>finally\<close> block without protection, and a
  value thrown in a \<open>finally\<close> block replaces the outcome of the \<open>try\<close>. Here all nine
  fetches succeed and the \<open>try\<close> block leaves the buffer, but the request rejects with the
  error of the listener.
\<close>

theorem timing_callback_counterexample:
  "outcome (slopeProtocolV4_try rounded_math (onTiming throwing_callback (example_source flat_manager))
          flat_dem 0 ''slope-slope://5/10/10'' (Fin 5) (Fin 10) (Fin 10) (Fin 45) (Fin 30))
     \<noteq> Inl (Error ''listener failed'')
   \<and> settled (slopeProtocolV4 rounded_math (onTiming throwing_callback (example_source flat_manager))
          flat_dem 0 ''slope-slope://5/10/10'' (Fin 5) (Fin 10) (Fin 10) (Fin 45) (Fin 30))
     = Inl (Error ''listener failed'')"
proof -
  let ?src = "onTiming throwing_callback (example_source flat_manager)"
  have c: "demManager ?src (Fin 5) (Fin 10) (Fin 10) = Inr ()"
    by (simp add: onTiming_def example_source_fields flat_manager_def)
  have f: "forEach_timing (timingCallbacks ?src) tm = Some (Error ''listener failed'')" for tm
    by (simp add: onTiming_def example_source_fields throwing_callback_def)
  from try_center_fulfilled[OF c, of flat_dem rounded_math 0 "''slope-slope://5/10/10''"
      "Fin 45" "Fin 30"]
  have "outcome (slopeProtocolV4_try rounded_math ?src flat_dem 0 ''slope-slope://5/10/10''
               (Fin 5) (Fin 10) (Fin 10) (Fin 45) (Fin 30)) \<noteq> Inl (Error ''listener failed'')"
    by auto
  then show ?thesis by (simp add: run_fields f)
qed

text \<open>
  C6, amended. The callbacks are invoked in the order of their registration with the
  timing record of the outcome (finished for a buffer, error for an error). If one of
  them throws, the request rejects with the value thrown by the first callback that
  throws, and the underlying outcome is lost; the underlying outcome, buffer or error,
  reaches the caller unchanged exactly when no callback throws.
\<close>

theorem timing_callback_throws:
  "let run = slopeProtocolV4 M src fromRawDem now url z x y maxAngle pixelSize;
       underlying = outcome (slopeProtocolV4_try M src fromRawDem now url z x y maxAngle pixelSize)
   in timing run = (case underlying of Inr response \<Rightarrow> Finished url | Inl err \<Rightarrow> Errored url)
      \<and> (\<forall>pre cb post thrown.
            timingCallbacks src = pre @ cb # post
            \<and> (\<forall>c \<in> set pre. c (timing run) = None)
            \<and> cb (timing run) = Some thrown \<longrightarrow>
            settled run = Inl thrown)
      \<and> ((\<forall>cb \<in> set (timingCallbacks src). cb (timing run) = None) \<longrightarrow>
            settled run = underlying)"
proof -
  let ?body = "slopeProtocolV4_try M src fromRawDem now url z x y maxAngle pixelSize"
  let ?run = "slopeProtocolV4 M src fromRawDem now url z x y maxAngle pixelSize"
  have tm: "timing ?run = timing_record ?body" by (simp add: run_fields)
  have rec: "timing_record ?body
             = (case outcome ?body of Inr response \<Rightarrow> Finished url | Inl err \<Rightarrow> Errored url)"
    by (simp add: try_unfold split: option.split)
  show ?thesis
    unfolding Let_def
  proof (intro conjI allI impI)
    show "timing ?run
          = (case outcome ?body of Inr response \<Rightarrow> Finished url | Inl err \<Rightarrow> Errored url)"
      using tm rec by simp
  next
    fix pre cb post thrown
    assume "timingCallbacks src = pre @ cb # post
            \<and> (\<forall>c \<in> set pre. c (timing ?run) = None)
            \<and> cb (timing ?run) = Some thrown"
    then have "forEach_timing (timingCallbacks src) (timing_record ?body) = Some thrown"
      unfolding tm
      using forEach_timing_first[of "timingCallbacks src" pre cb post "timing_record ?body" thrown]
      by blast
    then show "settled ?run = Inl thrown" by (simp add: run_fields)
  next
    assume "\<forall>cb \<in> set (timingCallbacks src). cb (timing ?run) = None"
    then have "forEach_timing (timingCallbacks src) (timing_record ?body) = None"
      unfolding tm by (simp add: forEach_timing_None)
    then show "settled ?run = outcome ?body" by (simp add: run_fields)
  qed
qed

theorem timing_callback_throws_witness:
  "settled (slopeProtocolV4 rounded_math
      (onTiming late_callback (onTiming throwing_callback (onTiming quiet_callback
         (example_source failing_manager))))
      flat_dem 0 ''slope-slope://5/10/10'' (Fin 5) (Fin 10) (Fin 10) (Fin 45) (Fin 30))
     = Inl (Error ''listener failed'')
   \<and> settled (slopeProtocolV4 rounded_math (onTiming quiet_callback (example_source failing_manager))
      flat_dem 0 ''slope-slope://5/10/10'' (Fin 5) (Fin 10) (Fin 10) (Fin 45) (Fin 30))
     = Inl (Error ''Center tile is required but was not available'')"
proof -
  let ?loud = "onTiming late_callback (onTiming throwing_callback (onTiming quiet_callback
         (example_source failing_manager)))"
  let ?quiet = "onTiming quiet_callback (example_source failing_manager)"
  have cbs: "timingCallbacks ?loud = [quiet_callback] @ throwing_callback # [late_callback]"
    by (simp add: onTiming_def example_source_fields)
  note loud = timing_callback_throws[where M = rounded_math and src = ?loud
        and fromRawDem = flat_dem and now = 0 and url = "''slope-slope://5/10/10''"
        and z = "Fin 5" and x = "Fin 10" and y = "Fin 10" and maxAngle = "Fin 45"
        and pixelSize = "Fin 30", unfolded Let_def, THEN conjunct2, THEN conjunct1, rule_format,
        of "[quiet_callback]" throwing_callback "[late_callback]" "Error ''listener failed''"]
  have "settled (slopeProtocolV4 rounded_math ?loud flat_dem 0
      ''slope-slope://5/10/10'' (Fin 5) (Fin 10) (Fin 10) (Fin 45) (Fin 30))
     = Inl (Error ''listener failed'')"
    by (rule loud) (simp add: cbs quiet_callback_def throwing_callback_def)
  moreover have c: "demManager ?quiet (Fin 5) (Fin 10) (Fin 10) = Inl (Error ''404'')"
    by (simp add: onTiming_def example_source_fields failing_manager_def)
  moreover have "timingCallbacks ?quiet = [quiet_callback]"
    by (simp add: onTiming_def example_source_fields)
  then have "settled (slopeProtocolV4 rounded_math ?quiet flat_dem 0
      ''slope-slope://5/10/10'' (Fin 5) (Fin 10) (Fin 10) (Fin 45) (Fin 30))
     = Inl (Error ''Center tile is required but was not available'')"
    using timing_callback_throws[where M = rounded_math and src = ?quiet and fromRawDem = flat_dem
        and now = 0 and url = "''slope-slope://5/10/10''" and z = "Fin 5" and x = "Fin 10"
        and y = "Fin 10" and maxAngle = "Fin 45" and pixelSize = "Fin 30"]
    unfolding Let_def
    by (simp add: quiet_callback_def try_center_rejected[OF c])
  ultimately show ?thesis by simp
qed

subsection \<open>The legacy callback convention\<close>

text \<open>
  C10. With a legacy callback, if the callback throws when invoked with a successful
  result, \<open>v3compat\<close> invokes the same callback a second time with the thrown value as the
  error argument: the \<open>catch\<close> at the end of the chain also catches what the success
  handler throws.
\<close>

theorem v3compat_callback_twice:
  "v4 request = Inr result
   \<and> cb (Result (data result) (cacheControl result) (expires result)) = Some thrown \<longrightarrow>
   v3compat v4 request (Callback cb)
     = Cancel [Result (data result) (cacheControl result) (expires result), Failure thrown]
              (cb (Failure thrown))"
  by (simp add: v3compat_def Let_def)

theorem v3compat_callback_twice_witness:
  "v3compat example_v4 ''slope-slope://5/10/10'' (Callback throwing_once)
     = Cancel [Result [0, 0, 0, 255] (Some ''public, max-age=3600'') (Some 3600000),
               Failure (Error ''render failed'')] None"
  using v3compat_callback_twice[of example_v4 "''slope-slope://5/10/10''"
      "\<lparr>data = [0, 0, 0, 255], cacheControl = Some ''public, max-age=3600'', expires = Some 3600000\<rparr>"
      throwing_once "Error ''render failed''"]
  by (simp add: example_v4_def throwing_once_def)

section \<open>Properties of the bridge\<close>

subsection \<open>The listener of the worker\<close>

lemma on_message_matched:
  assumes "callbacks s (message_id m) = Some r"
  shows "resolved (on_message m s) = resolved s @ [(r, payload m)]"
    and "promises (on_message m s) = resolve r (payload m) (promises s)"
    and "callbacks (on_message m s) = (callbacks s)(message_id m := None)"
    and "id_counter (on_message m s) = id_counter s"
    and "posted (on_message m s) = posted s"
  using assms by (simp_all add: on_message_def Let_def)

lemma on_message_unmatched:
  assumes "callbacks s (message_id m) = None"
  shows "on_message m s = s"
proof -
  have "(callbacks s)(message_id m := None) = callbacks s"
    using assms by (simp add: fun_upd_idem)
  then show ?thesis using assms by (simp add: on_message_def Let_def)
qed

lemma on_message_removes: "callbacks (on_message m s) (message_id m) = None"
  by (simp add: on_message_def Let_def split: option.split)

lemma on_message_twice: "on_message m (on_message m s) = on_message m s"
  by (rule on_message_unmatched) (rule on_message_removes)

lemma on_message_fields:
  "id_counter (on_message m s) = id_counter s"
  "posted (on_message m s) = posted s"
  "length (promises (on_message m s)) = length (promises s)"
  by (simp_all add: on_message_def Let_def resolve_def split: option.split)

lemma on_message_callbacks:
  "callbacks (on_message m s) = (callbacks s)(message_id m := None)"
  by (simp add: on_message_def Let_def split: option.split)

subsection \<open>Delegated requests\<close>

lemma getData_delegated:
  assumes "\<not> prefix ''https://'' url"
  shows "fst (getData fetch url s) = length (promises s)"
    and "id_counter (snd (getData fetch url s)) = id_counter s + 1"
    and "posted (snd (getData fetch url s))
         = posted s @ [Message (idPrefix @ string_of_nat (id_counter s)) url]"
    and "promises (snd (getData fetch url s)) = promises s @ [Pending]"
    and "callbacks (snd (getData fetch url s))
         = (callbacks s)(idPrefix @ string_of_nat (id_counter s) \<mapsto> length (promises s))"
    and "resolved (snd (getData fetch url s)) = resolved s"
  using assms by (simp_all add: getData_def Let_def)

lemma getData_direct:
  assumes "prefix ''https://'' url"
  shows "fst (getData fetch url s) = length (promises s)"
    and "id_counter (snd (getData fetch url s)) = id_counter s"
    and "posted (snd (getData fetch url s)) = posted s"
    and "\<exists>q. promises (snd (getData fetch url s)) = promises s @ [q]"
    and "callbacks (snd (getData fetch url s)) = callbacks s"
    and "resolved (snd (getData fetch url s)) = resolved s"
  using assms by (simp_all add: getData_def Let_def)

lemma event_id_inj:
  "idPrefix @ string_of_nat m = idPrefix @ string_of_nat n \<Longrightarrow> m = n"
  by (simp add: string_of_nat_inj)

lemma wf_initial: "wf_worker initial"
  by (simp add: wf_worker_def initial_def)

lemma wf_on_message:
  assumes "wf_worker s"
  shows "wf_worker (on_message m s)"
  using assms unfolding wf_worker_def
  by (simp add: on_message_fields on_message_callbacks)

lemma fresh_event_id:
  assumes "wf_worker s"
  shows "idPrefix @ string_of_nat (id_counter s) \<notin> message_id ` set (posted s)"
    and "callbacks s (idPrefix @ string_of_nat (id_counter s)) = None"
proof -
  let ?k = "idPrefix @ string_of_nat (id_counter s)"
  show "?k \<notin> message_id ` set (posted s)"
  proof
    assume "?k \<in> message_id ` set (posted s)"
    then obtain m where "m \<in> set (posted s)" "message_id m = ?k" by auto
    then obtain n where "n < id_counter s" "?k = idPrefix @ string_of_nat n"
      using assms unfolding wf_worker_def by metis
    then show False using event_id_inj by blast
  qed
  show "callbacks s ?k = None"
  proof (rule ccontr)
    assume "callbacks s ?k \<noteq> None"
    then obtain r where "callbacks s ?k = Some r" by blast
    then obtain n where "n < id_counter s" "?k = idPrefix @ string_of_nat n"
      using assms unfolding wf_worker_def by metis
    then show False using event_id_inj by blast
  qed
qed

lemma wf_getData:
  assumes "wf_worker s"
  shows "wf_worker (snd (getData fetch url s))"
proof (cases "prefix ''https://'' url")
  case True
  from getData_direct(4)[OF True, of fetch s] obtain q
    where q: "promises (snd (getData fetch url s)) = promises s @ [q]" by blast
  show ?thesis
    using assms unfolding wf_worker_def
    by (auto simp add: getData_direct(2,3,5)[OF True] q intro: less_SucI)
next
  case False
  let ?k = "idPrefix @ string_of_nat (id_counter s)"
  have fresh_posted: "?k \<notin> message_id ` set (posted s)"
    and fresh_cb: "callbacks s ?k = None"
    using fresh_event_id[OF assms] by simp_all
  have 1: "\<forall>m \<in> set (posted s @ [Message ?k url]).
             \<exists>n < id_counter s + 1. message_id m = idPrefix @ string_of_nat n"
    using assms unfolding wf_worker_def by (auto intro: less_SucI) (meson less_SucI)
  have 2: "distinct (map message_id (posted s @ [Message ?k url]))"
    using assms fresh_posted unfolding wf_worker_def by simp
  have 3: "\<forall>k r. ((callbacks s)(?k \<mapsto> length (promises s))) k = Some r \<longrightarrow>
           r < length (promises s @ [Pending])
           \<and> (\<exists>n < id_counter s + 1. k = idPrefix @ string_of_nat n)"
  proof (intro allI impI)
    fix k r assume a: "((callbacks s)(?k \<mapsto> length (promises s))) k = Some r"
    show "r < length (promises s @ [Pending])
           \<and> (\<exists>n < id_counter s + 1. k = idPrefix @ string_of_nat n)"
    proof (cases "k = ?k")
      case True
      then show ?thesis using a by auto
    next
      case False
      then have "callbacks s k = Some r" using a by simp
      then have "r < length (promises s)" "\<exists>n < id_counter s. k = idPrefix @ string_of_nat n"
        using assms unfolding wf_worker_def by blast+
      then show ?thesis by (auto intro: less_SucI)
    qed
  qed
  have 4: "\<forall>k k' r. ((callbacks s)(?k \<mapsto> length (promises s))) k = Some r
             \<and> ((callbacks s)(?k \<mapsto> length (promises s))) k' = Some r \<longrightarrow> k = k'"
  proof (intro allI impI)
    fix k k' r
    assume a: "((callbacks s)(?k \<mapsto> length (promises s))) k = Some r
             \<and> ((callbacks s)(?k \<mapsto> length (promises s))) k' = Some r"
    have old: "callbacks s j = Some r' \<Longrightarrow> r' < length (promises s)" for j r'
      using assms unfolding wf_worker_def by blast
    have inj: "callbacks s j = Some r' \<Longrightarrow> callbacks s j' = Some r' \<Longrightarrow> j = j'" for j j' r'
      using assms unfolding wf_worker_def by blast
    show "k = k'"
    proof (cases "k = ?k"; cases "k' = ?k")
      assume "k = ?k" "k' = ?k" then show ?thesis by simp
    next
      assume "k = ?k" "k' \<noteq> ?k"
      then have "r = length (promises s)" "callbacks s k' = Some r" using a by auto
      then show ?thesis using old by blast
    next
      assume "k \<noteq> ?k" "k' = ?k"
      then have "r = length (promises s)" "callbacks s k = Some r" using a by auto
      then show ?thesis using old by blast
    next
      assume "k \<noteq> ?k" "k' \<noteq> ?k"
      then show ?thesis using a inj by auto
    qed
  qed
  show ?thesis
    unfolding wf_worker_def getData_delegated(2-5)[OF False]
    using 1 2 3 4 by blast
qed

lemma wf_step: "wf_worker s \<Longrightarrow> wf_worker (step fetch ev s)"
  by (cases ev) (simp_all add: wf_getData wf_on_message)

lemma wf_run: "wf_worker s \<Longrightarrow> wf_worker (run fetch es s)"
  unfolding run_def by (induction es arbitrary: s) (simp_all add: wf_step)

lemma wf_reachable: "wf_worker (run fetch es initial)"
  by (rule wf_run) (rule wf_initial)


lemma digit_char_0: "digit_char 0 = CHR ''0''"
  unfolding digit_char_def by code_simp

lemma string_of_nat_0: "string_of_nat 0 = ''0''"
  by (subst string_of_nat.simps) (simp add: digit_char_0)

text \<open>
  C5. A delegated \<open>getData\<close> registers the resolver of a new pending promise under an id
  that was never posted and is not registered, and posts the request under that id; in
  every state the worker can reach, the ids posted so far are pairwise distinct. For an
  incoming message whose id has a registered resolver, the listener calls that resolver
  once with the payload and removes the entry; a message whose id has no registered
  resolver leaves the state as it is, so a second delivery of a message changes nothing.
\<close>

theorem rpc_correlation:
  "(\<not> prefix ''https://'' url \<longrightarrow>
      (let s0 = run fetch es initial;
           k = idPrefix @ string_of_nat (id_counter s0);
           p = fst (getData fetch url s0);
           s1 = snd (getData fetch url s0)
       in callbacks s1 k = Some p \<and> promises s1 ! p = Pending
          \<and> posted s1 = posted s0 @ [Message k url]
          \<and> callbacks s0 k = None \<and> k \<notin> message_id ` set (posted s0)
          \<and> id_counter s0 < id_counter s1))
   \<and> distinct (map message_id (posted (run fetch es initial)))
   \<and> (callbacks s (message_id m) = Some r \<longrightarrow>
        resolved (on_message m s) = resolved s @ [(r, payload m)]
        \<and> promises (on_message m s) = resolve r (payload m) (promises s)
        \<and> callbacks (on_message m s) = (callbacks s)(message_id m := None))
   \<and> (callbacks s (message_id m) = None \<longrightarrow> on_message m s = s)
   \<and> on_message m (on_message m s) = on_message m s"
proof (intro conjI impI)
  assume d: "\<not> prefix ''https://'' url"
  have wf: "wf_worker (run fetch es initial)" by (rule wf_reachable)
  show "let s0 = run fetch es initial;
           k = idPrefix @ string_of_nat (id_counter s0);
           p = fst (getData fetch url s0);
           s1 = snd (getData fetch url s0)
       in callbacks s1 k = Some p \<and> promises s1 ! p = Pending
          \<and> posted s1 = posted s0 @ [Message k url]
          \<and> callbacks s0 k = None \<and> k \<notin> message_id ` set (posted s0)
          \<and> id_counter s0 < id_counter s1"
    using fresh_event_id[OF wf]
    by (simp add: Let_def getData_delegated[OF d])
next
  show "distinct (map message_id (posted (run fetch es initial)))"
    using wf_reachable[of fetch es] by (simp add: wf_worker_def)
next
  assume a: "callbacks s (message_id m) = Some r"
  show "resolved (on_message m s) = resolved s @ [(r, payload m)]"
    and "promises (on_message m s) = resolve r (payload m) (promises s)"
    and "callbacks (on_message m s) = (callbacks s)(message_id m := None)"
    using on_message_matched[OF a] by simp_all
next
  assume "callbacks s (message_id m) = None"
  then show "on_message m s = s" by (rule on_message_unmatched)
next
  show "on_message m (on_message m s) = on_message m s" by (rule on_message_twice)
qed

theorem rpc_correlation_witness:
  "callbacks (snd (getData no_fetch ''dem://1/2/3'' initial)) ''maplibre-contours-get-data-0'' = Some 0
   \<and> resolved (on_message (Message ''maplibre-contours-get-data-0'' tile_bytes)
                (snd (getData no_fetch ''dem://1/2/3'' initial))) = [(0, tile_bytes)]
   \<and> on_message (Message ''maplibre-contours-get-data-1'' tile_bytes)
        (snd (getData no_fetch ''dem://1/2/3'' initial)) = snd (getData no_fetch ''dem://1/2/3'' initial)"
proof -
  let ?s1 = "snd (getData no_fetch ''dem://1/2/3'' initial)"
  have d: "\<not> prefix ''https://'' ''dem://1/2/3''" by simp
  have i: "run no_fetch [] initial = initial" by (simp add: run_def)
  have k: "idPrefix @ string_of_nat (id_counter initial) = ''maplibre-contours-get-data-0''"
    by (simp add: idPrefix_def initial_def string_of_nat_0)
  have p: "fst (getData no_fetch ''dem://1/2/3'' initial) = 0"
    by (simp add: getData_delegated(1)[OF d] initial_def)
  have c: "callbacks ?s1 ''maplibre-contours-get-data-0'' = Some 0"
    using rpc_correlation[of "''dem://1/2/3''" no_fetch "[]" initial
        "Message ''maplibre-contours-get-data-0'' tile_bytes" 0] d
    by (simp add: i Let_def k p)
  have n: "callbacks ?s1 ''maplibre-contours-get-data-1'' = None"
    by (simp add: getData_delegated(5)[OF d] initial_def idPrefix_def string_of_nat_0)
  have r: "resolved ?s1 = []"
    by (simp add: getData_delegated(6)[OF d] initial_def)
  show ?thesis
    using rpc_correlation[of "''dem://x''" no_fetch "[]" ?s1
        "Message ''maplibre-contours-get-data-0'' tile_bytes" 0]
      rpc_correlation[of "''dem://x''" no_fetch "[]" ?s1
        "Message ''maplibre-contours-get-data-1'' tile_bytes" 0]
      c n r
    by simp
qed

subsection \<open>A delegated promise only ever waits or is fulfilled\<close>

lemma getData_waits:
  assumes "wf_worker s" "\<not> prefix ''https://'' url"
  shows "waits_for (snd (getData fetch url s)) (fst (getData fetch url s))
           (idPrefix @ string_of_nat (id_counter s))"
  unfolding waits_for_def
  using wf_getData[OF assms(1), of fetch url]
  by (simp add: getData_delegated[OF assms(2)])

lemma resolve_other: "r \<noteq> p \<Longrightarrow> resolve r v ps ! p = ps ! p"
  by (simp add: resolve_def)

lemma resolve_length: "length (resolve r v ps) = length ps"
  by (simp add: resolve_def)

lemma waits_for_step:
  assumes w: "waits_for s p k" and other: "\<And>m. ev = Deliver m \<Longrightarrow> message_id m \<noteq> k"
  shows "waits_for (step fetch ev s) p k"
proof (cases ev)
  case (GetData url)
  have wf: "wf_worker s" and p: "p < length (promises s)" "promises s ! p = Pending"
    and k: "callbacks s k = Some p"
    using w by (simp_all add: waits_for_def)
  show ?thesis
  proof (cases "prefix ''https://'' url")
    case True
    from getData_direct(4)[OF True, of fetch s] obtain q
      where q: "promises (snd (getData fetch url s)) = promises s @ [q]" by blast
    show ?thesis
      unfolding waits_for_def GetData
      using wf_getData[OF wf, of fetch url] p k
      by (simp add: q getData_direct(5)[OF True] nth_append)
  next
    case False
    have "idPrefix @ string_of_nat (id_counter s) \<noteq> k"
      using fresh_event_id(2)[OF wf] k by auto
    then show ?thesis
      unfolding waits_for_def GetData
      using wf_getData[OF wf, of fetch url] p k
      by (simp add: getData_delegated[OF False] nth_append)
  qed
next
  case (Deliver m)
  have wf: "wf_worker s" and p: "p < length (promises s)" "promises s ! p = Pending"
    and k: "callbacks s k = Some p"
    using w by (simp_all add: waits_for_def)
  have ne: "message_id m \<noteq> k" using other Deliver by simp
  have same: "promises (on_message m s) ! p = promises s ! p"
  proof (cases "callbacks s (message_id m)")
    case None
    then show ?thesis by (simp add: on_message_unmatched)
  next
    case (Some r)
    have "r \<noteq> p"
    proof
      assume "r = p"
      then have "message_id m = k" using wf Some k unfolding wf_worker_def by blast
      then show False using ne by simp
    qed
    then show ?thesis by (simp add: on_message_matched(2)[OF Some] resolve_other)
  qed
  show ?thesis
    unfolding waits_for_def Deliver
    using wf_on_message[OF wf, of m] p k ne same
    by (simp add: on_message_fields on_message_callbacks)
qed

lemma waits_for_run:
  assumes "waits_for s p k" "\<forall>m. Deliver m \<in> set es \<longrightarrow> message_id m \<noteq> k"
  shows "waits_for (run fetch es s) p k"
  using assms unfolding run_def
proof (induction es arbitrary: s)
  case Nil
  then show ?case by simp
next
  case (Cons ev es)
  have "waits_for (step fetch ev s) p k"
    using Cons.prems by (intro waits_for_step) auto
  then show ?case using Cons by simp
qed

lemma waits_for_deliver:
  assumes "waits_for s p k"
  shows "p < length (promises (on_message (Message k v) s))
         \<and> promises (on_message (Message k v) s) ! p = Fulfilled v"
proof -
  have p: "p < length (promises s)" "promises s ! p = Pending" and k: "callbacks s k = Some p"
    using assms by (simp_all add: waits_for_def)
  have "callbacks s (message_id (Message k v)) = Some p" using k by simp
  from on_message_matched(2)[OF this] show ?thesis
    using p by (simp add: resolve_def)
qed

lemma fulfilled_step:
  assumes "p < length (promises s)" "promises s ! p = Fulfilled v"
  shows "p < length (promises (step fetch ev s))
         \<and> promises (step fetch ev s) ! p = Fulfilled v"
proof (cases ev)
  case (GetData url)
  show ?thesis
  proof (cases "prefix ''https://'' url")
    case True
    from getData_direct(4)[OF True, of fetch s] obtain q
      where q: "promises (snd (getData fetch url s)) = promises s @ [q]" by blast
    show ?thesis using assms by (simp add: GetData q nth_append)
  next
    case False
    show ?thesis using assms by (simp add: GetData getData_delegated(4)[OF False] nth_append)
  qed
next
  case (Deliver m)
  show ?thesis
    using assms
    by (cases "callbacks s (message_id m)")
       (auto simp add: Deliver on_message_unmatched on_message_matched(2) resolve_def
          nth_list_update)
qed

lemma fulfilled_run:
  assumes "p < length (promises s)" "promises s ! p = Fulfilled v"
  shows "promises (run fetch es s) ! p = Fulfilled v"
  using assms unfolding run_def
proof (induction es arbitrary: s)
  case Nil
  then show ?case by simp
next
  case (Cons ev es)
  from fulfilled_step[OF Cons.prems, of fetch ev]
  show ?case using Cons.IH by simp
qed

lemma run_append: "run fetch (es @ es') s = run fetch es' (run fetch es s)"
  by (simp add: run_def)

lemma run_Cons: "run fetch (ev # es) s = run fetch es (step fetch ev s)"
  by (simp add: run_def)

lemma waits_then_fulfilled:
  assumes "waits_for s p k" "\<forall>m. Deliver m \<in> set es \<longrightarrow> message_id m \<noteq> k"
  shows "promises (run fetch (es @ Deliver (Message k v) # es') s) ! p = Fulfilled v"
proof -
  have "waits_for (run fetch es s) p k" using assms by (rule waits_for_run)
  from waits_for_deliver[OF this, of v]
  show ?thesis by (simp add: run_append run_Cons fulfilled_run)
qed

lemma never_rejected:
  assumes "waits_for s p k"
  shows "promises (run fetch es s) ! p \<noteq> Rejected e"
proof (cases "\<exists>ev \<in> set es. \<exists>m. ev = Deliver m \<and> message_id m = k")
  case False
  then have "\<forall>m. Deliver m \<in> set es \<longrightarrow> message_id m \<noteq> k" by blast
  from waits_for_run[OF assms this, of fetch] show ?thesis by (simp add: waits_for_def)
next
  case True
  from split_list_first_prop[OF True] obtain es1 ev es2 where
    es: "es = es1 @ ev # es2" and ev: "\<exists>m. ev = Deliver m \<and> message_id m = k"
    and first: "\<forall>ev' \<in> set es1. \<not> (\<exists>m. ev' = Deliver m \<and> message_id m = k)"
    by blast
  from ev obtain v where v: "ev = Deliver (Message k v)" by (metis message.collapse)
  have "\<forall>m. Deliver m \<in> set es1 \<longrightarrow> message_id m \<noteq> k" using first by blast
  from waits_then_fulfilled[OF assms this, of fetch v es2]
  show ?thesis unfolding es v by simp
qed

lemma host_listener_posts:
  assumes "m \<in> set (snd (host_listener getProtocol req))"
  shows "\<exists>protocol result. getProtocol (payload req) = Some protocol
           \<and> protocol (payload req) = Inr result \<and> m = Message (message_id req) result"
  using assms by (auto simp add: host_listener_def split: if_splits option.splits sum.splits)

text \<open>
  C9. For a URL that does not start with \<open>https://\<close>, whatever the worker did before and
  whatever happens afterwards, the promise returned by \<open>getData\<close> is never rejected: it is
  pending as long as no message with its correlation id has been delivered and fulfilled
  with the payload of the first such message from then on. The listener in the host
  posts a message only for a fulfilled result; when no protocol is registered for the URL
  or the protocol rejects, it posts nothing, so that promise stays pending.
\<close>

theorem delegated_never_rejects:
  "(\<not> prefix ''https://'' url \<longrightarrow>
      (let s0 = run fetch es0 initial;
           k = idPrefix @ string_of_nat (id_counter s0);
           p = fst (getData fetch url s0);
           s1 = snd (getData fetch url s0)
       in promises (run fetch es s1) ! p \<noteq> Rejected e
          \<and> ((\<forall>m. Deliver m \<in> set es \<longrightarrow> message_id m \<noteq> k) \<longrightarrow>
                promises (run fetch es s1) ! p = Pending
                \<and> promises (run fetch (es @ Deliver (Message k v) # es') s1) ! p = Fulfilled v)))
   \<and> (\<forall>m \<in> set (snd (host_listener getProtocol req)).
         \<exists>protocol result. getProtocol (payload req) = Some protocol
           \<and> protocol (payload req) = Inr result \<and> m = Message (message_id req) result)
   \<and> (getProtocol (payload req) = None
        \<or> (\<exists>protocol err. getProtocol (payload req) = Some protocol
              \<and> protocol (payload req) = Inl err)
      \<longrightarrow> snd (host_listener getProtocol req) = [])"
proof (intro conjI impI ballI)
  assume d: "\<not> prefix ''https://'' url"
  let ?s0 = "run fetch es0 initial"
  let ?k = "idPrefix @ string_of_nat (id_counter ?s0)"
  have w: "waits_for (snd (getData fetch url ?s0)) (fst (getData fetch url ?s0)) ?k"
    using wf_reachable d by (rule getData_waits)
  show "let s0 = run fetch es0 initial;
           k = idPrefix @ string_of_nat (id_counter s0);
           p = fst (getData fetch url s0);
           s1 = snd (getData fetch url s0)
       in promises (run fetch es s1) ! p \<noteq> Rejected e
          \<and> ((\<forall>m. Deliver m \<in> set es \<longrightarrow> message_id m \<noteq> k) \<longrightarrow>
                promises (run fetch es s1) ! p = Pending
                \<and> promises (run fetch (es @ Deliver (Message k v) # es') s1) ! p = Fulfilled v)"
    unfolding Let_def
  proof (intro conjI impI)
    show "promises (run fetch es (snd (getData fetch url ?s0))) ! fst (getData fetch url ?s0)
          \<noteq> Rejected e"
      using w by (rule never_rejected)
  next
    assume n: "\<forall>m. Deliver m \<in> set es \<longrightarrow> message_id m \<noteq> ?k"
    from waits_for_run[OF w n, of fetch]
    show "promises (run fetch es (snd (getData fetch url ?s0))) ! fst (getData fetch url ?s0)
          = Pending"
      by (simp add: waits_for_def)
    from waits_then_fulfilled[OF w n]
    show "promises (run fetch (es @ Deliver (Message ?k v) # es') (snd (getData fetch url ?s0)))
            ! fst (getData fetch url ?s0) = Fulfilled v" .
  qed
next
  fix m assume "m \<in> set (snd (host_listener getProtocol req))"
  then show "\<exists>protocol result. getProtocol (payload req) = Some protocol
           \<and> protocol (payload req) = Inr result \<and> m = Message (message_id req) result"
    by (rule host_listener_posts)
next
  assume "getProtocol (payload req) = None
        \<or> (\<exists>protocol err. getProtocol (payload req) = Some protocol
              \<and> protocol (payload req) = Inl err)"
  then show "snd (host_listener getProtocol req) = []"
    by (auto simp add: host_listener_def)
qed

theorem delegated_never_rejects_witness:
  "promises (run no_fetch [GetData ''https://a'', Deliver (Message ''other'' tile_bytes)]
               (snd (getData no_fetch ''dem://1/2/3'' initial))) ! 0 = Pending
   \<and> promises (run no_fetch [Deliver (Message ''maplibre-contours-get-data-0'' tile_bytes)]
               (snd (getData no_fetch ''dem://1/2/3'' initial))) ! 0 = Fulfilled tile_bytes
   \<and> snd (host_listener no_protocol (Message ''maplibre-contours-get-data-0'' ''dem://1/2/3'')) = []"
proof -
  have d: "\<not> prefix ''https://'' ''dem://1/2/3''" by simp
  have i: "run no_fetch [] initial = initial" by (simp add: run_def)
  have k: "idPrefix @ string_of_nat (id_counter initial) = ''maplibre-contours-get-data-0''"
    by (simp add: idPrefix_def initial_def string_of_nat_0)
  have p: "fst (getData no_fetch ''dem://1/2/3'' initial) = 0"
    by (simp add: getData_delegated(1)[OF d] initial_def)
  have "promises (run no_fetch [GetData ''https://a'', Deliver (Message ''other'' tile_bytes)]
               (snd (getData no_fetch ''dem://1/2/3'' initial))) ! 0 = Pending"
    using delegated_never_rejects[of "''dem://1/2/3''" no_fetch "[]"
        "[GetData ''https://a'', Deliver (Message ''other'' tile_bytes)]" "Error ''e''" tile_bytes "[]"
        no_protocol "Message ''maplibre-contours-get-data-0'' ''dem://1/2/3''"] d
    by (simp add: Let_def i k p)
  moreover have "promises (run no_fetch [Deliver (Message ''maplibre-contours-get-data-0'' tile_bytes)]
               (snd (getData no_fetch ''dem://1/2/3'' initial))) ! 0 = Fulfilled tile_bytes"
    using delegated_never_rejects[of "''dem://1/2/3''" no_fetch "[]" "[]" "Error ''e''" tile_bytes "[]"
        no_protocol "Message ''maplibre-contours-get-data-0'' ''dem://1/2/3''"] d
    by (simp add: Let_def i k p)
  moreover have "snd (host_listener no_protocol
                        (Message ''maplibre-contours-get-data-0'' ''dem://1/2/3'')) = []"
    using delegated_never_rejects[of "''dem://1/2/3''" no_fetch "[]" "[]" "Error ''e''" tile_bytes "[]"
        no_protocol "Message ''maplibre-contours-get-data-0'' ''dem://1/2/3''"]
    by (simp add: no_protocol_def)
  ultimately show ?thesis by simp
qed

end

